theory Spec2Isabelle
  imports Complex_Main "HOL-Library.Multiset"
begin

section \<open>Calendar: the part of the JavaScript \<open>Date\<close> object the scheduler uses\<close>

text \<open>
  A \<open>Date\<close> built from local calendar fields at midnight is modelled by its local
  calendar date: the year, the month index (0 = January) and the day of the month. A
  \<open>Date\<close> object is a \<open>Date option\<close>: \<open>None\<close> is the invalid date, whose time value is
  \<open>NaN\<close> and whose fields all read \<open>NaN\<close>. Out-of-range month and day arguments normalise
  as ECMAScript's MakeDay does: the month overflows into the year and the day is an offset
  from the first of the month. The time zone and daylight saving are not modelled: local
  time is taken to be UTC, so that a date is valid up to 100,000,000 days on either side of
  1 January 1970, and the date 24 hours after midnight is the next calendar date.
\<close>

record Date =
  fullYear :: int
  monthIdx :: nat
  dayOfMonth :: nat

definition InLeapYear :: "int \<Rightarrow> bool" where
  "InLeapYear y = ((y mod 4 = 0 \<and> y mod 100 \<noteq> 0) \<or> y mod 400 = 0)"

definition DaysInMonth :: "int \<Rightarrow> nat \<Rightarrow> nat" where
  "DaysInMonth y m =
     (if m = 1 then (if InLeapYear y then 29 else 28)
      else if m = 3 \<or> m = 5 \<or> m = 8 \<or> m = 10 then 30 else 31)"

definition next_day :: "Date \<Rightarrow> Date" where
  "next_day dt =
     (if dayOfMonth dt < DaysInMonth (fullYear dt) (monthIdx dt)
      then dt\<lparr>dayOfMonth := dayOfMonth dt + 1\<rparr>
      else if monthIdx dt = 11
      then \<lparr>fullYear = fullYear dt + 1, monthIdx = 0, dayOfMonth = 1\<rparr>
      else \<lparr>fullYear = fullYear dt, monthIdx = monthIdx dt + 1, dayOfMonth = 1\<rparr>)"

definition prev_day :: "Date \<Rightarrow> Date" where
  "prev_day dt =
     (if 1 < dayOfMonth dt then dt\<lparr>dayOfMonth := dayOfMonth dt - 1\<rparr>
      else if monthIdx dt = 0
      then \<lparr>fullYear = fullYear dt - 1, monthIdx = 11, dayOfMonth = 31\<rparr>
      else \<lparr>fullYear = fullYear dt, monthIdx = monthIdx dt - 1,
            dayOfMonth = DaysInMonth (fullYear dt) (monthIdx dt - 1)\<rparr>)"

primrec days_forward :: "nat \<Rightarrow> Date \<Rightarrow> Date" where
  "days_forward 0 dt = dt"
| "days_forward (Suc n) dt = days_forward n (next_day dt)"

primrec days_back :: "nat \<Rightarrow> Date \<Rightarrow> Date" where
  "days_back 0 dt = dt"
| "days_back (Suc n) dt = days_back n (prev_day dt)"

text \<open>
  The day number of a date, the number of days since 1 January 1970, and \<open>TimeClip\<close>:
  a time value of more than 8.64e15 milliseconds, 100,000,000 days, on either side is
  \<open>NaN\<close>.
\<close>

definition DayFromYear :: "int \<Rightarrow> int" where
  "DayFromYear y =
     365 * (y - 1970) + (y - 1969) div 4 - (y - 1901) div 100 + (y - 1601) div 400"

definition daysBeforeMonth :: "int \<Rightarrow> nat \<Rightarrow> nat" where
  "daysBeforeMonth y m = sum_list (map (DaysInMonth y) [0..<m])"

definition dayNumber :: "Date \<Rightarrow> int" where
  "dayNumber dt =
     DayFromYear (fullYear dt) + int (daysBeforeMonth (fullYear dt) (monthIdx dt))
       + int (dayOfMonth dt) - 1"

definition TimeClip :: "Date \<Rightarrow> Date option" where
  "TimeClip dt = (if \<bar>dayNumber dt\<bar> \<le> 100000000 then Some dt else None)"

text \<open>
  \<open>new Date(year, monthIndex, day)\<close>. The constructor reads a year from 0 to 99 as
  1900 + year.
\<close>

definition newDate :: "int \<Rightarrow> int \<Rightarrow> int \<Rightarrow> Date option" where
  "newDate y m d =
     (let yr = (if 0 \<le> y \<and> y \<le> 99 then 1900 + y else y);
          first = \<lparr>fullYear = yr + m div 12, monthIdx = nat (m mod 12), dayOfMonth = 1\<rparr>
      in TimeClip (if 1 \<le> d then days_forward (nat (d - 1)) first
                   else days_back (nat (1 - d)) first))"

text \<open>\<open>getDay()\<close>: 0 is Sunday. Day 0 of the time value, 1 January 1970, was a Thursday.\<close>

definition getDay :: "Date \<Rightarrow> nat" where
  "getDay dt = nat ((dayNumber dt + 4) mod 7)"

subsection \<open>Date strings\<close>

fun showNat :: "nat \<Rightarrow> string" where
  "showNat n =
     (if n < 10 then [''0123456789'' ! n]
      else showNat (n div 10) @ [''0123456789'' ! (n mod 10)])"

declare showNat.simps [simp del]

definition showInt :: "int \<Rightarrow> string" where
  "showInt i = (if i < 0 then CHR ''-'' # showNat (nat (- i)) else showNat (nat i))"

definition padStart2 :: "string \<Rightarrow> string" where
  "padStart2 s = (if length s < 2 then replicate (2 - length s) CHR ''0'' @ s else s)"

text \<open>\<open>formatDateStr\<close>. The fields of an invalid date print as \<open>NaN\<close>.\<close>

definition formatDateStr :: "Date option \<Rightarrow> string" where
  "formatDateStr date =
     (case date of
        None \<Rightarrow> ''NaN-NaN-NaN''
      | Some dt \<Rightarrow>
          showInt (fullYear dt) @ ''-'' @ padStart2 (showNat (monthIdx dt + 1))
            @ ''-'' @ padStart2 (showNat (dayOfMonth dt)))"

text \<open>The relational operators on two strings compare code units lexicographically.\<close>

fun str_lt :: "string \<Rightarrow> string \<Rightarrow> bool" where
  "str_lt [] [] = False"
| "str_lt [] (y # ys) = True"
| "str_lt (x # xs) [] = False"
| "str_lt (x # xs) (y # ys) =
     (if (of_char x :: nat) < of_char y then True
      else if (of_char y :: nat) < of_char x then False
      else str_lt xs ys)"

definition str_ge :: "string \<Rightarrow> string \<Rightarrow> bool" where
  "str_ge a b = (\<not> str_lt a b)"

definition str_le :: "string \<Rightarrow> string \<Rightarrow> bool" where
  "str_le a b = (\<not> str_lt b a)"

section \<open>Data model\<close>

text \<open>
  A grid cell is \<open>null\<close> (\<open>None\<close>) or a string: a shift code or an absence marker.
  A date string of an unavailability window that is missing (\<open>undefined\<close>, \<open>null\<close> or
  the empty string, all of them falsy) is the empty string.
\<close>

type_synonym cell = "string option"

datatype ShiftType = working | backup | admin

record Shift =
  code :: string
  stype :: ShiftType
  coverage :: "int option"

record Unavailability =
  utype :: string
  startDate :: string
  endDate :: string

record Employee =
  name :: string
  unavailability :: "Unavailability list"

record Group =
  groupName :: string
  employees :: "Employee list"

record Constraints =
  minRestHours :: int
  maxHoursWeek :: int
  maxConsecutiveDays :: int
  targetShiftsPerPerson :: int

record Counts =
  totalAssigned :: nat
  nightAssigned :: nat

text \<open>
  The two warning templates, with the values they interpolate:
  \<open>Day ${d+1}: ${shift.code} shift understaffed (${assigned}/${requiredCount})\<close> and
  \<open>${emp.name}: ${maxConsec} consecutive days (max ${maxConsecutiveDays})\<close>.
\<close>

datatype Warning =
  Understaffed nat string nat int
| ConsecutiveOverrun string nat int

text \<open>
  The application state. \<open>periodStart\<close> is \<open>AppState.startDate\<close>, the value of the date
  input parsed into year, month (1 = January) and day, \<open>None\<close> when it is empty.
  The employees are identified by their position in the flattened roster, which
  determines the key \<open>groupIndex-employeeIndex\<close> of the source.
\<close>

record AppState =
  industry :: string
  calendarStyle :: string
  month :: int
  year :: int
  periodStart :: "(int \<times> int \<times> int) option"
  duration :: nat
  coveragePreset :: string
  rotationPattern :: string
  shifts :: "Shift list"
  groups :: "Group list"
  constraints :: Constraints
  schedule :: "cell list list option"
  shiftCounts :: "Counts list option"
  warnings :: "Warning list"
  randomSeed :: int

section \<open>Rotation patterns\<close>

text \<open>
  The catalogue \<open>ROTATION_PATTERNS\<close>: per industry, the pattern identifiers and their
  cycles (1 = working, 0 = off); \<open>custom\<close> has no cycle. The industry is the value of a
  select over the five keys of the catalogue; a name that is no key of the catalogue reads
  as \<open>undefined\<close>, here \<open>None\<close>. The names of the properties that every object inherits,
  such as \<open>constructor\<close>, are not among the values of the select and are not modelled.
\<close>

definition otherPatterns :: "(string \<times> nat list option) list" where
  "otherPatterns =
     [(''custom'', None),
      (''5on2off'', Some [1, 1, 1, 1, 1, 0, 0]),
      (''4on3off'', Some [1, 1, 1, 1, 0, 0, 0]),
      (''4on4off'', Some [1, 1, 1, 1, 0, 0, 0, 0]),
      (''6on2off'', Some [1, 1, 1, 1, 1, 1, 0, 0])]"

definition ROTATION_PATTERNS :: "string \<Rightarrow> (string \<times> nat list option) list option" where
  "ROTATION_PATTERNS ind =
     (if ind = ''healthcare'' then Some
        [(''custom'', None),
         (''5on2off'', Some [1, 1, 1, 1, 1, 0, 0]),
         (''4on4off'', Some [1, 1, 1, 1, 0, 0, 0, 0]),
         (''3on4off'', Some [1, 1, 1, 0, 0, 0, 0]),
         (''7on7off'', Some [1, 1, 1, 1, 1, 1, 1, 0, 0, 0, 0, 0, 0, 0]),
         (''dupont'', Some [1, 1, 1, 1, 0, 0, 0, 1, 1, 1, 0, 1, 1, 1,
                            0, 0, 0, 1, 1, 1, 1, 0, 0, 0, 0, 0, 0, 0]),
         (''panama'', Some [1, 1, 0, 0, 1, 1, 1, 0, 0, 1, 1, 0, 0, 0])]
      else if ind = ''manufacturing'' then Some
        [(''custom'', None),
         (''5on2off'', Some [1, 1, 1, 1, 1, 0, 0]),
         (''4on3off'', Some [1, 1, 1, 1, 0, 0, 0]),
         (''4on4off'', Some [1, 1, 1, 1, 0, 0, 0, 0]),
         (''continental'', Some [1, 1, 1, 1, 1, 1, 0, 0, 0, 0]),
         (''panama'', Some [1, 1, 0, 0, 1, 1, 1, 0, 0, 1, 1, 0, 0, 0]),
         (''6on1off'', Some [1, 1, 1, 1, 1, 1, 0])]
      else if ind = ''public_safety'' then Some
        [(''custom'', None),
         (''24on48off'', Some [1, 0, 0]),
         (''24on72off'', Some [1, 0, 0, 0]),
         (''4on4off'', Some [1, 1, 1, 1, 0, 0, 0, 0]),
         (''pitman'', Some [1, 1, 0, 0, 1, 1, 1, 0, 0, 1, 1, 0, 0, 0]),
         (''5on2off5on3off'', Some [1, 1, 1, 1, 1, 0, 0, 1, 1, 1, 1, 1, 0, 0, 0]),
         (''california'', Some [1, 1, 1, 0, 0, 0, 0])]
      else if ind = ''retail'' then Some
        [(''custom'', None),
         (''5on2off'', Some [1, 1, 1, 1, 1, 0, 0]),
         (''4on2off'', Some [1, 1, 1, 1, 0, 0]),
         (''4on3off'', Some [1, 1, 1, 1, 0, 0, 0]),
         (''6on1off'', Some [1, 1, 1, 1, 1, 1, 0]),
         (''split'', Some [1, 1, 1, 0, 1, 1, 1, 0, 0])]
      else if ind = ''other'' then Some otherPatterns
      else None)"

definition getSelectedRotationPattern :: "AppState \<Rightarrow> (string \<times> nat list option) option" where
  "getSelectedRotationPattern st =
     (let patterns = (case ROTATION_PATTERNS (industry st) of
                        Some ps \<Rightarrow> ps
                      | None \<Rightarrow> otherPatterns)
      in find (\<lambda>p. fst p = rotationPattern st) patterns)"

definition selectedPattern :: "AppState \<Rightarrow> nat list option" where
  "selectedPattern st =
     (case getSelectedRotationPattern st of None \<Rightarrow> None | Some obj \<Rightarrow> snd obj)"

text \<open>The flattened roster \<open>allEmployees\<close>, groups in order, employees in order.\<close>

definition allEmployees :: "AppState \<Rightarrow> Employee list" where
  "allEmployees st = concat (map employees (groups st))"

text \<open>
  \<open>employeePatternOffsets\<close>: one entry per employee when a pattern is selected, no
  entry otherwise; a missing entry reads as 0.
\<close>

definition patternOffset :: "nat \<Rightarrow> nat \<Rightarrow> nat \<Rightarrow> nat" where
  "patternOffset index cycleLength employeeCount = (index * cycleLength) div employeeCount"

definition employeePatternOffsets :: "AppState \<Rightarrow> nat list" where
  "employeePatternOffsets st =
     (case selectedPattern st of
        None \<Rightarrow> []
      | Some p \<Rightarrow> map (\<lambda>index. patternOffset index (length p) (length (allEmployees st)))
                    [0..<length (allEmployees st)])"

definition offsetOf :: "nat list \<Rightarrow> nat \<Rightarrow> nat" where
  "offsetOf offsets empId = (if empId < length offsets then offsets ! empId else 0)"

text \<open>
  \<open>shouldWorkOnDay\<close>. With an empty cycle the position is \<open>NaN\<close>, the read is
  \<open>undefined\<close> and the comparison with 1 is false.
\<close>

definition onCycle :: "nat list option \<Rightarrow> nat list \<Rightarrow> nat \<Rightarrow> nat \<Rightarrow> bool" where
  "onCycle pat offsets empId dayIndex =
     (case pat of
        None \<Rightarrow> True
      | Some p \<Rightarrow>
          (let offset = offsetOf offsets empId;
               cycleLength = length p
           in if cycleLength = 0 then False
              else p ! ((dayIndex + offset) mod cycleLength) = 1))"

definition shouldWorkOnDay :: "AppState \<Rightarrow> nat \<Rightarrow> nat \<Rightarrow> bool" where
  "shouldWorkOnDay st empId dayIndex =
     onCycle (selectedPattern st) (employeePatternOffsets st) empId dayIndex"

section \<open>Period\<close>

text \<open>
  \<open>getDaysInPeriod\<close>. In month mode the result is \<open>getDate()\<close> of day 0 of the following
  month; on an invalid date that is \<open>NaN\<close>, here \<open>None\<close>.
\<close>

definition getDaysInPeriod :: "AppState \<Rightarrow> nat option" where
  "getDaysInPeriod st =
     (if calendarStyle st = ''monthly''
      then map_option dayOfMonth (newDate (year st) (month st + 1) 0)
      else Some (duration st))"

text \<open>\<open>parseLocalDate\<close> returns \<open>null\<close>, here \<open>None\<close>, when there is no date string.\<close>

definition parseLocalDate :: "(int \<times> int \<times> int) option \<Rightarrow> Date option option" where
  "parseLocalDate dateStr =
     (case dateStr of None \<Rightarrow> None | Some (y, m, d) \<Rightarrow> Some (newDate y (m - 1) d))"

text \<open>
  \<open>getDateForDay\<close>. In date-range mode without a start date \<open>parseLocalDate\<close> returns
  \<open>null\<close> and the call of \<open>getTime\<close> on it throws: the result is \<open>None\<close>. With a start
  date the source adds \<open>dayIndex\<close> times 24 hours to the time value of the start, which
  is \<open>NaN\<close> when the start is invalid; in a time zone whose offset does not change during
  the period the sum is midnight of the calendar date \<open>dayIndex\<close> days after the start,
  which is what the model takes it to be.
\<close>

definition getDateForDay :: "AppState \<Rightarrow> nat \<Rightarrow> Date option option" where
  "getDateForDay st dayIndex =
     (if calendarStyle st = ''monthly''
      then Some (newDate (year st) (month st) (int dayIndex + 1))
      else (case parseLocalDate (periodStart st) of
              None \<Rightarrow> None
            | Some None \<Rightarrow> Some None
            | Some (Some start) \<Rightarrow> Some (TimeClip (days_forward dayIndex start))))"

text \<open>The day of the week of an invalid date is \<open>NaN\<close>, which is neither 0 nor 6.\<close>

definition isWeekend :: "Date option \<Rightarrow> bool" where
  "isWeekend date =
     (case date of None \<Rightarrow> False | Some dt \<Rightarrow> getDay dt = 0 \<or> getDay dt = 6)"

fun those_dates :: "'a option list \<Rightarrow> 'a list option" where
  "those_dates [] = Some []"
| "those_dates (None # ds) = None"
| "those_dates (Some x # ds) = (case those_dates ds of None \<Rightarrow> None | Some xs \<Rightarrow> Some (x # xs))"

text \<open>
  The dates of the days of the period, \<open>None\<close> when the run throws before it has them:
  \<open>new Array(numDays)\<close> throws a \<open>RangeError\<close> when \<open>numDays\<close> is \<open>NaN\<close> or is not less
  than 4294967296, and \<open>getDateForDay\<close> throws a \<open>TypeError\<close> as described.
\<close>

definition periodDates :: "AppState \<Rightarrow> Date option list option" where
  "periodDates st =
     (case getDaysInPeriod st of
        None \<Rightarrow> None
      | Some numDays \<Rightarrow>
          if 4294967296 \<le> numDays then None
          else those_dates (map (getDateForDay st) [0..<numDays]))"

section \<open>Schedule generation\<close>

text \<open>
  The local state of one run of \<open>runScheduler\<close>: \<open>grid\<close> is the local \<open>schedule\<close>
  (one row per employee, one cell per day), \<open>tally\<close> is the local \<open>shiftCounts\<close>,
  \<open>seed\<close> is the running seed and \<open>warns\<close> is \<open>AppState.warnings\<close> as the run
  extends it.
\<close>

record Run =
  grid :: "cell list list"
  tally :: "Counts list"
  consecutiveDays :: "nat list"
  seed :: int
  warns :: "Warning list"

text \<open>
  \<open>seededRandom\<close> hashes its argument with a floating-point sine. The hash is not
  modelled: the generator is the parameter \<open>rnd\<close>, a function of the seed alone. The seed
  is an integer, as \<open>generateSchedule\<close> sets it; the fraction that \<open>regenerateSchedule\<close>
  adds to the seed, and its rounding at each increment, are not modelled.
\<close>

definition seededRandom :: "(int \<Rightarrow> real) \<Rightarrow> int \<Rightarrow> real" where
  "seededRandom rnd s = rnd s"

subsection \<open>Pre-filling unavailability\<close>

definition applyWindow :: "string list \<Rightarrow> cell list \<Rightarrow> Unavailability \<Rightarrow> cell list" where
  "applyWindow dateStrs row unavail =
     (if startDate unavail = [] then row
      else (let startStr = startDate unavail;
                endStr = (if endDate unavail = [] then startDate unavail else endDate unavail)
            in map (\<lambda>(dateStr, c).
                      if str_ge dateStr startStr \<and> str_le dateStr endStr
                      then Some (utype unavail) else c)
                   (zip dateStrs row)))"

definition prefillRow :: "string list \<Rightarrow> Employee \<Rightarrow> cell list" where
  "prefillRow dateStrs emp =
     foldl (applyWindow dateStrs) (replicate (length dateStrs) None) (unavailability emp)"

definition prefill :: "Date option list \<Rightarrow> Employee list \<Rightarrow> cell list list" where
  "prefill dates emps = map (prefillRow (map formatDateStr dates)) emps"

subsection \<open>Working shifts\<close>

definition shiftPriority :: "Shift \<Rightarrow> nat" where
  "shiftPriority s =
     (if code s = ''N'' then 1 else if code s = ''E'' then 2 else if code s = ''D'' then 3
      else 10)"

definition workingShifts :: "AppState \<Rightarrow> Shift list" where
  "workingShifts st = sort_key shiftPriority (filter (\<lambda>s. stype s = working) (shifts st))"

definition getCoverageDefault :: "AppState \<Rightarrow> string \<Rightarrow> int" where
  "getCoverageDefault st shiftCode =
     (let preset = coveragePreset st
      in if preset = ''24_7'' then 1
         else if preset = ''8x5'' then (if shiftCode = ''D'' then 1 else 0)
         else if preset = ''12x7'' then (if shiftCode = ''D'' \<or> shiftCode = ''N'' then 1 else 0)
         else 1)"

definition requiredCount :: "AppState \<Rightarrow> bool \<Rightarrow> Shift \<Rightarrow> int" where
  "requiredCount st weekend shift =
     (let cov = (case coverage shift of Some c \<Rightarrow> c | None \<Rightarrow> getCoverageDefault st (code shift))
      in if coveragePreset st = ''8x5'' \<and> weekend then 0 else cov)"

text \<open>A cell is truthy when it is neither \<open>null\<close> nor the empty string.\<close>

definition truthy :: "cell \<Rightarrow> bool" where
  "truthy c = (c \<noteq> None \<and> c \<noteq> Some [])"

definition restBlocked :: "Shift list \<Rightarrow> cell list list \<Rightarrow> Shift \<Rightarrow> nat \<Rightarrow> nat \<Rightarrow> bool" where
  "restBlocked allShifts g shift empId d =
     (0 < d \<and> truthy (g ! empId ! (d - 1)) \<and>
      (case find (\<lambda>s. Some (code s) = g ! empId ! (d - 1)) allShifts of
         None \<Rightarrow> False
       | Some prevShift \<Rightarrow>
           stype prevShift = working \<and> code prevShift = ''N'' \<and> code shift = ''D''))"

definition isAvailable :: "AppState \<Rightarrow> Run \<Rightarrow> Shift \<Rightarrow> nat \<Rightarrow> nat \<Rightarrow> bool" where
  "isAvailable st r shift d empId =
     (if grid r ! empId ! d \<noteq> None then False
      else if \<not> shouldWorkOnDay st empId d then False
      else if restBlocked (shifts st) (grid r) shift empId d then False
      else if maxConsecutiveDays (constraints st) \<le> int (consecutiveDays r ! empId) then False
      else True)"

definition available :: "AppState \<Rightarrow> Run \<Rightarrow> Shift \<Rightarrow> nat \<Rightarrow> nat list" where
  "available st r shift d = filter (isAvailable st r shift d) [0..<length (allEmployees st)]"

text \<open>
  The comparison function of the fairness sort. Every call computes both scores afresh
  and draws one number for each, advancing the seed twice.
\<close>

definition baseScore :: "Counts list \<Rightarrow> Shift \<Rightarrow> nat \<Rightarrow> nat" where
  "baseScore cnts shift empId =
     (if code shift = ''N''
      then totalAssigned (cnts ! empId) + nightAssigned (cnts ! empId) * 2
      else totalAssigned (cnts ! empId))"

definition compareFairness ::
  "(int \<Rightarrow> real) \<Rightarrow> Counts list \<Rightarrow> Shift \<Rightarrow> nat \<Rightarrow> nat \<Rightarrow> int \<Rightarrow> real \<times> int" where
  "compareFairness rnd cnts shift a b s =
     (let scoreA = real (baseScore cnts shift a) + seededRandom rnd s * 0.5;
          scoreB = real (baseScore cnts shift b) + seededRandom rnd (s + 1) * 0.5
      in (scoreA - scoreB, s + 2))"

text \<open>
  \<open>Array.prototype.sort\<close> with a comparison function that has a side effect. The
  language leaves the sequence of comparisons to the engine; the model is the sort of V8
  (Node.js, Chrome) on an array of fewer than 64 elements, which V8 treats as one run. The
  roster holds at most \<open>MAX_EMPLOYEES\<close> = 20 employees, so the arrays of candidates are of that
  kind. An array of fewer than two elements is returned as it is. Otherwise
  \<open>CountAndMakeRun\<close> finds the run at the start of the array: it compares the second element
  with the first, the run is descending when the result is negative and ascending
  otherwise, and it extends the run while each next element compared with the one before
  it continues the run; the comparison that ends the run is made as well. A descending run
  is reversed. \<open>BinaryInsertionSort\<close> then takes the remaining elements in turn and inserts
  each at the position that a binary search of the sorted part finds. Every call of the
  comparison function is \<open>comparefn(later element, earlier element)\<close>: \<open>extendRun\<close> returns
  the number of elements that extend the run, \<open>findInsertionPoint\<close> the position in the
  sorted part.
\<close>

fun extendRun ::
  "('a \<Rightarrow> 'a \<Rightarrow> int \<Rightarrow> real \<times> int) \<Rightarrow> bool \<Rightarrow> 'a \<Rightarrow> 'a list \<Rightarrow> int \<Rightarrow> nat \<times> int" where
  "extendRun comparefn isDescending previousElement [] s = (0, s)"
| "extendRun comparefn isDescending previousElement (currentElement # rest) s =
     (case comparefn currentElement previousElement s of
        (order, s') \<Rightarrow>
          if (if isDescending then 0 \<le> order else order < 0) then (0, s')
          else (case extendRun comparefn isDescending currentElement rest s' of
                  (n, s'') \<Rightarrow> (Suc n, s'')))"

definition countAndMakeRun ::
  "('a \<Rightarrow> 'a \<Rightarrow> int \<Rightarrow> real \<times> int) \<Rightarrow> 'a list \<Rightarrow> int \<Rightarrow> ('a list \<times> nat) \<times> int" where
  "countAndMakeRun comparefn xs s =
     (case xs of
        elementHigh # elementLow # rest \<Rightarrow>
          (case comparefn elementLow elementHigh s of
             (order, s') \<Rightarrow>
               (let isDescending = (order < 0)
                in case extendRun comparefn isDescending elementLow rest s' of
                     (n, s'') \<Rightarrow>
                       (let runLength = 2 + n
                        in ((if isDescending then rev (take runLength xs) @ drop runLength xs
                             else xs, runLength), s''))))
      | _ \<Rightarrow> ((xs, length xs), s))"

function findInsertionPoint ::
  "('a \<Rightarrow> 'a \<Rightarrow> int \<Rightarrow> real \<times> int) \<Rightarrow> 'a \<Rightarrow> 'a list \<Rightarrow> nat \<Rightarrow> nat \<Rightarrow> int \<Rightarrow> nat \<times> int" where
  "findInsertionPoint comparefn pivot xs left right s =
     (if left < right
      then (let mid = left + (right - left) div 2
            in case comparefn pivot (xs ! mid) s of
                 (order, s') \<Rightarrow>
                   if order < 0 then findInsertionPoint comparefn pivot xs left mid s'
                   else findInsertionPoint comparefn pivot xs (mid + 1) right s')
      else (left, s))"
  by pat_completeness auto

termination
  by (relation "measure (\<lambda>(comparefn, pivot, xs, left, right, s). right - left)") auto

declare findInsertionPoint.simps [simp del]

fun binaryInsertionSort ::
  "('a \<Rightarrow> 'a \<Rightarrow> int \<Rightarrow> real \<times> int) \<Rightarrow> 'a list \<Rightarrow> 'a list \<Rightarrow> int \<Rightarrow> 'a list \<times> int" where
  "binaryInsertionSort comparefn front [] s = (front, s)"
| "binaryInsertionSort comparefn front (pivot # rest) s =
     (case findInsertionPoint comparefn pivot front 0 (length front) s of
        (left, s') \<Rightarrow>
          binaryInsertionSort comparefn (take left front @ pivot # drop left front) rest s')"

definition arraySort ::
  "('a \<Rightarrow> 'a \<Rightarrow> int \<Rightarrow> real \<times> int) \<Rightarrow> 'a list \<Rightarrow> int \<Rightarrow> 'a list \<times> int" where
  "arraySort comparefn xs s =
     (if length xs < 2 then (xs, s)
      else (case countAndMakeRun comparefn xs s of
              ((ys, runLength), s') \<Rightarrow>
                binaryInsertionSort comparefn (take runLength ys) (drop runLength ys) s'))"

text \<open>One assignment: the cell, the total and, for the code N, the night count.\<close>

definition assignWorking :: "string \<Rightarrow> nat \<Rightarrow> nat \<Rightarrow> Run \<Rightarrow> Run" where
  "assignWorking c d empId r =
     r\<lparr>grid := (grid r)[empId := (grid r ! empId)[d := Some c]],
       tally := (tally r)[empId :=
         \<lparr>totalAssigned = totalAssigned (tally r ! empId) + 1,
          nightAssigned = (if c = ''N'' then nightAssigned (tally r ! empId) + 1
                           else nightAssigned (tally r ! empId))\<rparr>]\<rparr>"

fun assignLoop :: "string \<Rightarrow> nat \<Rightarrow> int \<Rightarrow> nat list \<Rightarrow> nat \<Rightarrow> Run \<Rightarrow> nat \<times> Run" where
  "assignLoop c d required [] assigned r = (assigned, r)"
| "assignLoop c d required (emp # rest) assigned r =
     (if int assigned < required
      then assignLoop c d required rest (assigned + 1) (assignWorking c d emp r)
      else (assigned, r))"

definition processShift :: "(int \<Rightarrow> real) \<Rightarrow> AppState \<Rightarrow> nat \<Rightarrow> bool \<Rightarrow> Run \<Rightarrow> Shift \<Rightarrow> Run" where
  "processShift rnd st d weekend r shift =
     (let required = requiredCount st weekend shift;
          (sorted_avail, s') =
             arraySort (compareFairness rnd (tally r) shift) (available st r shift d) (seed r);
          (assigned, r') = assignLoop (code shift) d required sorted_avail 0 (r\<lparr>seed := s'\<rparr>)
      in if int assigned < required
         then r'\<lparr>warns := warns r' @ [Understaffed (d + 1) (code shift) assigned required]\<rparr>
         else r')"

text \<open>A day counts as worked when its cell is truthy and not an absence marker.\<close>

definition worked :: "cell \<Rightarrow> bool" where
  "worked c = (truthy c \<and> c \<noteq> Some ''LEAVE'' \<and> c \<noteq> Some ''TAD'')"

definition updateConsecutive :: "nat \<Rightarrow> Run \<Rightarrow> Run" where
  "updateConsecutive d r =
     r\<lparr>consecutiveDays :=
         map (\<lambda>empId. if worked (grid r ! empId ! d) then consecutiveDays r ! empId + 1 else 0)
             [0..<length (consecutiveDays r)]\<rparr>"

definition scheduleDay :: "(int \<Rightarrow> real) \<Rightarrow> AppState \<Rightarrow> Run \<Rightarrow> nat \<times> Date option \<Rightarrow> Run" where
  "scheduleDay rnd st r dd =
     (case dd of (d, date) \<Rightarrow>
        updateConsecutive d (foldl (processShift rnd st d (isWeekend date)) r (workingShifts st)))"

subsection \<open>Backup and admin fill\<close>

definition backupStep :: "(int \<Rightarrow> real) \<Rightarrow> AppState \<Rightarrow> string \<Rightarrow> nat \<Rightarrow> Run \<Rightarrow> nat \<Rightarrow> Run" where
  "backupStep rnd st c d r empId =
     (if grid r ! empId ! d = None \<and> shouldWorkOnDay st empId d \<and>
         real (totalAssigned (tally r ! empId))
           < real_of_int (targetShiftsPerPerson (constraints st)) * 0.8
      then (if seededRandom rnd (seed r) < 0.3
            then r\<lparr>grid := (grid r)[empId := (grid r ! empId)[d := Some c]],
                   tally := (tally r)[empId :=
                     (tally r ! empId)\<lparr>totalAssigned := totalAssigned (tally r ! empId) + 1\<rparr>],
                   seed := seed r + 1\<rparr>
            else r\<lparr>seed := seed r + 1\<rparr>)
      else r)"

definition backupFill :: "(int \<Rightarrow> real) \<Rightarrow> AppState \<Rightarrow> nat \<Rightarrow> Run \<Rightarrow> Run" where
  "backupFill rnd st numDays r =
     (case find (\<lambda>s. stype s = backup) (shifts st) of
        None \<Rightarrow> r
      | Some backupShift \<Rightarrow>
          foldl (\<lambda>r d. foldl (backupStep rnd st (code backupShift) d) r
                          [0..<length (allEmployees st)])
                r [0..<numDays])"

definition adminStep :: "(int \<Rightarrow> real) \<Rightarrow> AppState \<Rightarrow> string \<Rightarrow> nat \<Rightarrow> Run \<Rightarrow> nat \<Rightarrow> Run" where
  "adminStep rnd st c d r empId =
     (if grid r ! empId ! d = None \<and> shouldWorkOnDay st empId d
      then (if seededRandom rnd (seed r) < 0.15
            then r\<lparr>grid := (grid r)[empId := (grid r ! empId)[d := Some c]],
                   seed := seed r + 1\<rparr>
            else r\<lparr>seed := seed r + 1\<rparr>)
      else r)"

definition adminFill :: "(int \<Rightarrow> real) \<Rightarrow> AppState \<Rightarrow> nat \<Rightarrow> Run \<Rightarrow> Run" where
  "adminFill rnd st numDays r =
     (case find (\<lambda>s. stype s = admin) (shifts st) of
        None \<Rightarrow> r
      | Some adminShift \<Rightarrow>
          foldl (\<lambda>r d. foldl (adminStep rnd st (code adminShift) d) r
                          [0..<length (allEmployees st)])
                r [0..<numDays])"

subsection \<open>Constraint check\<close>

fun scanRow :: "cell list \<Rightarrow> nat \<Rightarrow> nat \<Rightarrow> nat" where
  "scanRow [] consecutive maxConsec = maxConsec"
| "scanRow (c # cs) consecutive maxConsec =
     (if worked c then scanRow cs (consecutive + 1) (max maxConsec (consecutive + 1))
      else scanRow cs 0 maxConsec)"

definition checkEmployee :: "AppState \<Rightarrow> Employee \<times> cell list \<Rightarrow> Warning list" where
  "checkEmployee st er =
     (case er of (emp, row) \<Rightarrow>
        (let maxConsec = scanRow row 0 0
         in if maxConsecutiveDays (constraints st) < int maxConsec
            then [ConsecutiveOverrun (name emp) maxConsec (maxConsecutiveDays (constraints st))]
            else []))"

definition checkViolations :: "AppState \<Rightarrow> Run \<Rightarrow> Run" where
  "checkViolations st r =
     r\<lparr>warns := warns r @ concat (map (checkEmployee st) (zip (allEmployees st) (grid r)))\<rparr>"

subsection \<open>The run\<close>

definition initialRun :: "AppState \<Rightarrow> Date option list \<Rightarrow> Run" where
  "initialRun st dates =
     \<lparr>grid = prefill dates (allEmployees st),
      tally = replicate (length (allEmployees st)) \<lparr>totalAssigned = 0, nightAssigned = 0\<rparr>,
      consecutiveDays = replicate (length (allEmployees st)) 0,
      seed = randomSeed st,
      warns = []\<rparr>"

definition workingPass :: "(int \<Rightarrow> real) \<Rightarrow> AppState \<Rightarrow> Date option list \<Rightarrow> Run \<Rightarrow> Run" where
  "workingPass rnd st dates r = foldl (scheduleDay rnd st) r (zip [0..<length dates] dates)"

definition generate :: "(int \<Rightarrow> real) \<Rightarrow> AppState \<Rightarrow> Date option list \<Rightarrow> Run" where
  "generate rnd st dates =
     checkViolations st
       (adminFill rnd st (length dates)
          (backupFill rnd st (length dates)
             (workingPass rnd st dates (initialRun st dates))))"

text \<open>
  The outcome of \<open>runScheduler\<close>: the run stops at the alert when the roster is empty,
  throws a \<open>RangeError\<close> when the rows of the grid cannot be allocated, throws a
  \<open>TypeError\<close> when a date of the period cannot be built, and otherwise stores the grid
  and the counters. In the first three cases only the warnings have been cleared.
\<close>

datatype Outcome =
  NoEmployees AppState | RangeError AppState | TypeError AppState | Generated AppState

definition allocates :: "AppState \<Rightarrow> bool" where
  "allocates st =
     (case getDaysInPeriod st of None \<Rightarrow> False | Some numDays \<Rightarrow> numDays < 4294967296)"

definition runScheduler :: "(int \<Rightarrow> real) \<Rightarrow> AppState \<Rightarrow> Outcome" where
  "runScheduler rnd st =
     (let st0 = st\<lparr>warnings := []\<rparr>
      in if allEmployees st = [] then NoEmployees st0
         else if \<not> allocates st then RangeError st0
         else (case periodDates st of
                 None \<Rightarrow> TypeError st0
               | Some dates \<Rightarrow>
                   (let r = generate rnd st dates
                    in Generated (st0\<lparr>schedule := Some (grid r),
                                      shiftCounts := Some (tally r),
                                      warnings := warns r\<rparr>))))"

section \<open>Example inputs\<close>

text \<open>
  One group with one employee, a date-range period of three days from 1 May 2025, one
  working shift D with coverage 1 and no rotation pattern.
\<close>

definition exampleState :: AppState where
  "exampleState =
     \<lparr>industry = ''healthcare'', calendarStyle = ''daterange'', month = 4, year = 2025,
      periodStart = Some (2025, 5, 1), duration = 3, coveragePreset = ''custom'',
      rotationPattern = ''custom'',
      shifts = [\<lparr>code = ''D'', stype = working, coverage = Some 1\<rparr>],
      groups = [\<lparr>groupName = ''GROUP 1'',
                 employees = [\<lparr>name = ''Ann'', unavailability = []\<rparr>]\<rparr>],
      constraints = \<lparr>minRestHours = 8, maxHoursWeek = 60, maxConsecutiveDays = 6,
                      targetShiftsPerPerson = 10\<rparr>,
      schedule = None, shiftCounts = None, warnings = [], randomSeed = 7\<rparr>"

text \<open>A generator that always draws 0.\<close>

definition noNoise :: "int \<Rightarrow> real" where
  "noNoise s = 0"

definition twoEmployees :: "Group list" where
  "twoEmployees =
     [\<lparr>groupName = ''GROUP 1'',
       employees = [\<lparr>name = ''Ann'', unavailability = []\<rparr>,
                    \<lparr>name = ''Bob'', unavailability = []\<rparr>]\<rparr>]"

section \<open>Notions used in the properties\<close>

text \<open>
  \<open>keeps g g'\<close>: the grid \<open>g'\<close> has the shape of \<open>g\<close> and every cell of \<open>g\<close> that holds
  a value holds the same value in \<open>g'\<close>.
\<close>

definition keeps :: "cell list list \<Rightarrow> cell list list \<Rightarrow> bool" where
  "keeps g g' =
     (length g' = length g \<and>
      (\<forall>e < length g. length (g' ! e) = length (g ! e) \<and>
         (\<forall>d < length (g ! e). g ! e ! d \<noteq> None \<longrightarrow> g' ! e ! d = g ! e ! d)))"

text \<open>
  The example with one window, which has no end date, and the dates of the example
  period.
\<close>

definition leaveGroups :: "Group list" where
  "leaveGroups =
     [\<lparr>groupName = ''GROUP 1'',
       employees = [\<lparr>name = ''Ann'', unavailability =
                      [\<lparr>utype = ''LEAVE'', startDate = ''2025-05-02'', endDate = []\<rparr>]\<rparr>]\<rparr>]"

definition examplePeriod :: "Date option list" where
  "examplePeriod =
     [Some \<lparr>fullYear = 2025, monthIdx = 4, dayOfMonth = 1\<rparr>,
      Some \<lparr>fullYear = 2025, monthIdx = 4, dayOfMonth = 2\<rparr>,
      Some \<lparr>fullYear = 2025, monthIdx = 4, dayOfMonth = 3\<rparr>]"

text \<open>
  What a run produces: the stored grid, counters and warnings, or nothing when the run
  stops before it stores them.
\<close>

definition outputs :: "Outcome \<Rightarrow> (cell list list option \<times> Counts list option \<times> Warning list) option" where
  "outputs oc =
     (case oc of
        Generated s \<Rightarrow> Some (schedule s, shiftCounts s, warnings s)
      | NoEmployees s \<Rightarrow> None
      | RangeError s \<Rightarrow> None
      | TypeError s \<Rightarrow> None)"

text \<open>The state without the windows that have no start date.\<close>

definition skipUndated :: "AppState \<Rightarrow> AppState" where
  "skipUndated st =
     st\<lparr>groups :=
          map (\<lambda>g. g\<lparr>employees :=
                       map (\<lambda>e. e\<lparr>unavailability :=
                                    filter (\<lambda>u. startDate u \<noteq> []) (unavailability e)\<rparr>)
                           (employees g)\<rparr>)
              (groups st)\<rparr>"

text \<open>
  Two states that agree on everything a run reads: the inputs other than the groups,
  the names of the employees and the rows that pre-filling gives them.
\<close>

definition similar :: "AppState \<Rightarrow> AppState \<Rightarrow> bool" where
  "similar st1 st2 =
     (industry st1 = industry st2 \<and> calendarStyle st1 = calendarStyle st2 \<and>
      month st1 = month st2 \<and> year st1 = year st2 \<and> periodStart st1 = periodStart st2 \<and>
      duration st1 = duration st2 \<and> coveragePreset st1 = coveragePreset st2 \<and>
      rotationPattern st1 = rotationPattern st2 \<and> shifts st1 = shifts st2 \<and>
      constraints st1 = constraints st2 \<and> randomSeed st1 = randomSeed st2 \<and>
      map name (allEmployees st1) = map name (allEmployees st2) \<and>
      (\<forall>ds. map (prefillRow ds) (allEmployees st1) = map (prefillRow ds) (allEmployees st2)))"

text \<open>The constraint check of one row, by the name of the employee.\<close>

definition checkRow :: "int \<Rightarrow> string \<times> cell list \<Rightarrow> Warning list" where
  "checkRow limit nr =
     (case nr of (n, row) \<Rightarrow>
        if limit < int (scanRow row 0 0) then [ConsecutiveOverrun n (scanRow row 0 0) limit]
        else [])"

text \<open>The example with one window, which has no start date.\<close>

definition undatedGroups :: "Group list" where
  "undatedGroups =
     [\<lparr>groupName = ''GROUP 1'',
       employees = [\<lparr>name = ''Ann'', unavailability =
                      [\<lparr>utype = ''LEAVE'', startDate = [], endDate = ''2025-05-02''\<rparr>]\<rparr>]\<rparr>]"

text \<open>
  The category of a code: the type of the first shift of the catalogue with that code.
\<close>

definition category :: "Shift list \<Rightarrow> string \<Rightarrow> ShiftType option" where
  "category ss c = map_option stype (find (\<lambda>s. code s = c) ss)"

text \<open>A cell that holds a code of the working or of the backup category.\<close>

definition countsTowardTotal :: "Shift list \<Rightarrow> cell \<Rightarrow> bool" where
  "countsTowardTotal ss cl =
     (case cl of
        None \<Rightarrow> False
      | Some c \<Rightarrow> category ss c = Some working \<or> category ss c = Some backup)"

text \<open>A cell that holds the code N, N being a code of the working category.\<close>

definition holdsNight :: "Shift list \<Rightarrow> cell \<Rightarrow> bool" where
  "holdsNight ss cl = (cl = Some ''N'' \<and> category ss ''N'' = Some working)"

text \<open>
  The invariant of the data model: the codes of the catalogue are distinct, none is
  LEAVE or TAD, and every window is a LEAVE or a TAD window.
\<close>

definition catalogueOk :: "AppState \<Rightarrow> bool" where
  "catalogueOk st =
     (distinct (map code (shifts st)) \<and>
      ''LEAVE'' \<notin> set (map code (shifts st)) \<and> ''TAD'' \<notin> set (map code (shifts st)) \<and>
      list_all (\<lambda>e. list_all (\<lambda>u. utype u = ''LEAVE'' \<or> utype u = ''TAD'') (unavailability e))
        (allEmployees st))"

text \<open>The counters of every employee count the cells of the row.\<close>

definition consistent :: "Shift list \<Rightarrow> nat \<Rightarrow> nat \<Rightarrow> cell list list \<Rightarrow> Counts list \<Rightarrow> bool" where
  "consistent ss E n g t =
     (length g = E \<and> length t = E \<and>
      (\<forall>e < E. length (g ! e) = n \<and>
         totalAssigned (t ! e) = length (filter (countsTowardTotal ss) (g ! e)) \<and>
         nightAssigned (t ! e) = length (filter (holdsNight ss) (g ! e))))"

definition agrees :: "AppState \<Rightarrow> nat \<Rightarrow> Run \<Rightarrow> bool" where
  "agrees st n r = consistent (shifts st) (length (allEmployees st)) n (grid r) (tally r)"

text \<open>
  The longest run of consecutive elements that satisfy \<open>P\<close>: the greatest length, over all
  positions of the list, of the stretch of such elements that starts there.
\<close>

fun longestRun :: "('a \<Rightarrow> bool) \<Rightarrow> 'a list \<Rightarrow> nat" where
  "longestRun P [] = 0"
| "longestRun P (x # xs) = max (length (takeWhile P (x # xs))) (longestRun P xs)"

text \<open>A cell that holds a code of the working category.\<close>

definition holdsWorking :: "Shift list \<Rightarrow> cell \<Rightarrow> bool" where
  "holdsWorking ss cl = (case cl of None \<Rightarrow> False | Some c \<Rightarrow> category ss c = Some working)"

fun isShortfall :: "Warning \<Rightarrow> bool" where
  "isShortfall (Understaffed d c a q) = True"
| "isShortfall (ConsecutiveOverrun n m q) = False"

definition onlyShortfalls :: "Run \<Rightarrow> bool" where
  "onlyShortfalls r = list_all isShortfall (warns r)"

text \<open>
  The example with one admin shift A and no other shift, and at most 2 consecutive
  days.
\<close>

definition adminState :: AppState where
  "adminState =
     exampleState\<lparr>shifts := [\<lparr>code = ''A'', stype = admin, coverage = None\<rparr>],
                    constraints := (constraints exampleState)\<lparr>maxConsecutiveDays := 2\<rparr>\<rparr>"

text \<open>
  The states that the working pass goes through: \<open>dayStart\<close> is the state when day
  \<open>d\<close> begins, \<open>shiftStart\<close> the state on day \<open>d\<close> before the working shift at position
  \<open>k\<close> of the priority order is processed.
\<close>

definition dayStart :: "(int \<Rightarrow> real) \<Rightarrow> AppState \<Rightarrow> Date option list \<Rightarrow> nat \<Rightarrow> Run" where
  "dayStart rnd st dates d =
     foldl (scheduleDay rnd st) (initialRun st dates) (take d (zip [0..<length dates] dates))"

definition shiftStart :: "(int \<Rightarrow> real) \<Rightarrow> AppState \<Rightarrow> Date option list \<Rightarrow> nat \<Rightarrow> nat \<Rightarrow> Run" where
  "shiftStart rnd st dates d k =
     foldl (processShift rnd st d (isWeekend (dates ! d))) (dayStart rnd st dates d)
       (take k (workingShifts st))"

text \<open>The number of consecutive worked days at the end of a stretch of days.\<close>

definition trailingRun :: "cell list \<Rightarrow> nat" where
  "trailingRun cs = length (takeWhile worked (rev cs))"

text \<open>
  What holds of every state of the working pass on day \<open>d\<close>: the grid keeps the pre-filled
  cells, and the counter of consecutive days of an employee is the number of worked days
  that end on day \<open>d - 1\<close>.
\<close>

definition reachInv :: "AppState \<Rightarrow> Date option list \<Rightarrow> nat \<Rightarrow> Run \<Rightarrow> bool" where
  "reachInv st dates d r =
     (keeps (prefill dates (allEmployees st)) (grid r) \<and>
      length (tally r) = length (allEmployees st) \<and>
      length (consecutiveDays r) = length (allEmployees st) \<and>
      (\<forall>e < length (allEmployees st).
         consecutiveDays r ! e = trailingRun (take d (grid r ! e))))"

text \<open>The candidates after the fairness sort, and those that receive the shift.\<close>

definition sortedAvailable :: "(int \<Rightarrow> real) \<Rightarrow> AppState \<Rightarrow> Run \<Rightarrow> Shift \<Rightarrow> nat \<Rightarrow> nat list" where
  "sortedAvailable rnd st r shift d =
     fst (arraySort (compareFairness rnd (tally r) shift) (available st r shift d) (seed r))"

definition assignedTo :: "(int \<Rightarrow> real) \<Rightarrow> AppState \<Rightarrow> bool \<Rightarrow> Run \<Rightarrow> Shift \<Rightarrow> nat \<Rightarrow> nat list" where
  "assignedTo rnd st weekend r shift d =
     take (nat (requiredCount st weekend shift)) (sortedAvailable rnd st r shift d)"

text \<open>
  The number of consecutive days with a working code at the end of a stretch of days.
\<close>

definition workingRun :: "Shift list \<Rightarrow> cell list \<Rightarrow> nat" where
  "workingRun ss cs = length (takeWhile (holdsWorking ss) (rev cs))"

text \<open>The invariant of the data model, with no empty code.\<close>

definition codesOk :: "AppState \<Rightarrow> bool" where
  "codesOk st = (catalogueOk st \<and> [] \<notin> set (map code (shifts st)))"

text \<open>
  Every cell is null, an absence marker or the code of a working shift, as it is during
  the working pass.
\<close>

definition cellsOk :: "AppState \<Rightarrow> cell list list \<Rightarrow> bool" where
  "cellsOk st g =
     (\<forall>e < length g. \<forall>d < length (g ! e).
        g ! e ! d = None \<or> g ! e ! d = Some ''LEAVE'' \<or> g ! e ! d = Some ''TAD'' \<or>
        (\<exists>s \<in> set (workingShifts st). g ! e ! d = Some (code s)))"

text \<open>
  The candidates as C3 words them: no assignment yet on the day, on-cycle, not more than
  \<open>maxConsecutiveDays\<close> consecutive working days entering the day, and not on the shift
  D after the working shift N of the day before.
\<close>

definition claimedCandidate :: "AppState \<Rightarrow> Run \<Rightarrow> Shift \<Rightarrow> nat \<Rightarrow> nat \<Rightarrow> bool" where
  "claimedCandidate st r shift d e =
     (e < length (allEmployees st) \<and> grid r ! e ! d = None \<and> shouldWorkOnDay st e d \<and>
      \<not> maxConsecutiveDays (constraints st)
          < int (workingRun (shifts st) (take d (grid r ! e))) \<and>
      \<not> (0 < d \<and> grid r ! e ! (d - 1) = Some ''N'' \<and>
         category (shifts st) ''N'' = Some working \<and> code shift = ''D''))"

text \<open>The example with at most 2 consecutive days.\<close>

definition capState :: AppState where
  "capState = exampleState\<lparr>constraints := (constraints exampleState)\<lparr>maxConsecutiveDays := 2\<rparr>\<rparr>"

text \<open>
  The example with at most 2 consecutive days, the seed 44 and a catalogue that uses the
  code D twice, for a working shift and for an admin shift.
\<close>

definition dupState :: AppState where
  "dupState =
     capState\<lparr>shifts := [\<lparr>code = ''D'', stype = working, coverage = Some 1\<rparr>,
                          \<lparr>code = ''D'', stype = admin, coverage = None\<rparr>],
                randomSeed := 44\<rparr>"

text \<open>
  The scoring as C4 words it: the candidate at position \<open>i\<close> receives one score, its
  counters plus two successive draws of the generator, each scaled by 0.5; the
  candidates are sorted by that score, stably, and the first \<open>requiredCount\<close> of them
  receive the shift.
\<close>

definition claimedScore :: "(int \<Rightarrow> real) \<Rightarrow> Counts list \<Rightarrow> Shift \<Rightarrow> int \<Rightarrow> nat \<times> nat \<Rightarrow> real" where
  "claimedScore rnd cnts shift s ie =
     (case ie of (i, e) \<Rightarrow>
        real (baseScore cnts shift e) + rnd (s + 2 * int i) * 0.5
          + rnd (s + 2 * int i + 1) * 0.5)"

definition claimedOrder :: "(int \<Rightarrow> real) \<Rightarrow> Counts list \<Rightarrow> Shift \<Rightarrow> nat list \<Rightarrow> int \<Rightarrow> nat list" where
  "claimedOrder rnd cnts shift candidates s =
     map snd (sort_key (claimedScore rnd cnts shift s) (enumerate 0 candidates))"

definition claimedAssigned ::
  "(int \<Rightarrow> real) \<Rightarrow> AppState \<Rightarrow> bool \<Rightarrow> Run \<Rightarrow> Shift \<Rightarrow> nat \<Rightarrow> nat list" where
  "claimedAssigned rnd st weekend r shift d =
     take (nat (requiredCount st weekend shift))
       (claimedOrder rnd (tally r) shift (available st r shift d) (seed r))"

text \<open>
  The draws of the generator of the source at the seeds 42 to 47, the fractional part of
  \<open>Math.sin(seed) * 10000\<close>, to six decimals; the examples that use them draw at no
  other seed. The example with two employees and the seed 42.
\<close>

definition sineDraws :: "int \<Rightarrow> real" where
  "sineDraws s =
     (if s = 42 then 784521 / 1000000
      else if s = 43 then 252574 / 1000000
      else if s = 44 then 19251 / 1000000
      else if s = 45 then 35245 / 1000000
      else if s = 46 then 883476 / 1000000
      else if s = 47 then 731227 / 1000000
      else 1 / 2)"

definition tieState :: AppState where
  "tieState = exampleState\<lparr>groups := twoEmployees, randomSeed := 42\<rparr>"

section \<open>Properties\<close>

subsection \<open>Calendar resolver\<close>

lemma leap_two_digit:
  assumes "1 \<le> y" "y \<le> 99"
  shows "InLeapYear (1900 + y) = InLeapYear y"
proof -
  have a: "(1900 + y) mod 4 = y mod 4"
    using mod_mult_self2 [of y 4 475] by (simp add: add.commute)
  have b: "(1900 + y) mod 100 = y"
    using mod_mult_self2 [of y 100 19] assms by (simp add: add.commute)
  have c: "(1900 + y) mod 400 = 300 + y"
    using mod_mult_self2 [of "300 + y" 400 4] assms by (simp add: add.commute)
  have d: "y mod 100 = y" "y mod 400 = y"
    using assms by simp_all
  show ?thesis
    unfolding InLeapYear_def a b c d using assms by simp
qed

lemma days_two_digit: "1 \<le> y \<Longrightarrow> y \<le> 99 \<Longrightarrow> DaysInMonth (1900 + y) m = DaysInMonth y m"
  by (simp add: DaysInMonth_def leap_two_digit)

lemma last_day_of_month:
  assumes "0 \<le> m" "m \<le> 11" and "newDate y (m + 1) 0 = Some dt"
  shows "dayOfMonth dt = DaysInMonth (if 0 \<le> y \<and> y \<le> 99 then 1900 + y else y) (nat m)"
proof (cases "m = 11")
  case True
  with assms(3) show ?thesis
    by (auto simp add: newDate_def TimeClip_def prev_day_def DaysInMonth_def Let_def
        split: if_splits)
next
  case False
  with assms have m: "(m + 1) div 12 = 0" "(m + 1) mod 12 = m + 1" by auto
  have "nat (m + 1) - 1 = nat m" using assms by simp
  moreover have "nat (m + 1) \<noteq> 0" using assms by simp
  ultimately show ?thesis
    using assms(3)
    by (auto simp add: newDate_def TimeClip_def prev_day_def Let_def m split: if_splits)
qed

text \<open>
  In month mode, for a month index from 0 to 11, the number of days that the resolver
  returns, when it returns a number, is the number of days of that month in the year as
  the \<open>Date\<close> constructor resolves it: 1900 + year for a year from 0 to 99. For the years
  1 to 99 that is the number of days of the month in the given year.
\<close>

lemma days_in_month:
  assumes "calendarStyle st = ''monthly''" and "0 \<le> month st" and "month st \<le> 11"
    and "getDaysInPeriod st = Some n"
  shows "n = DaysInMonth (if 0 \<le> year st \<and> year st \<le> 99 then 1900 + year st else year st)
               (nat (month st))"
    and "year st \<noteq> 0 \<Longrightarrow> n = DaysInMonth (year st) (nat (month st))"
proof -
  from assms(1,4) obtain dt where dt: "newDate (year st) (month st + 1) 0 = Some dt"
    and n: "n = dayOfMonth dt"
    by (auto simp add: getDaysInPeriod_def)
  show a: "n = DaysInMonth (if 0 \<le> year st \<and> year st \<le> 99 then 1900 + year st else year st)
               (nat (month st))"
    unfolding n by (rule last_day_of_month [OF assms(2,3) dt])
  assume "year st \<noteq> 0"
  with a show "n = DaysInMonth (year st) (nat (month st))"
    using days_two_digit [of "year st" "nat (month st)"] by (auto split: if_splits)
qed

text \<open>
  C9 does not hold of the code. The \<open>Date\<close> constructor reads the year 0 as 1900, which
  is not a leap year, while the year 0 of the calendar is one: for February of the year 0
  the resolver returns 28, not 29. A month that ends more than 100,000,000 days after
  1 January 1970 has no last day that a \<open>Date\<close> can hold: for September of the year 275760,
  a month of 30 days, the resolver returns \<open>NaN\<close>, and a run with an employee throws.
\<close>

theorem C9_february_of_year_zero:
  "getDaysInPeriod (exampleState\<lparr>calendarStyle := ''monthly'', month := 1, year := 0\<rparr>)
     = Some 28 \<and>
   DaysInMonth 0 1 = 29 \<and>
   getDaysInPeriod (exampleState\<lparr>calendarStyle := ''monthly'', month := 8, year := 275760\<rparr>)
     = None \<and>
   DaysInMonth 275760 8 = 30 \<and>
   runScheduler noNoise (exampleState\<lparr>calendarStyle := ''monthly'', month := 8, year := 275760\<rparr>)
     = RangeError (exampleState\<lparr>calendarStyle := ''monthly'', month := 8, year := 275760\<rparr>)"
proof -
  have "newDate 0 2 0 = Some \<lparr>fullYear = 1900, monthIdx = 1, dayOfMonth = 28\<rparr>"
    by code_simp
  then have a: "getDaysInPeriod
      (exampleState\<lparr>calendarStyle := ''monthly'', month := 1, year := 0\<rparr>) = Some 28"
    by (simp add: getDaysInPeriod_def)
  have "newDate 275760 9 0 = None"
    by code_simp
  then have b: "getDaysInPeriod
      (exampleState\<lparr>calendarStyle := ''monthly'', month := 8, year := 275760\<rparr>) = None"
    by (simp add: getDaysInPeriod_def)
  have c: "allEmployees (exampleState\<lparr>calendarStyle := ''monthly'', month := 8, year := 275760\<rparr>)
      \<noteq> []"
    by (simp add: allEmployees_def exampleState_def)
  have d: "warnings exampleState = []" by (simp add: exampleState_def)
  show ?thesis
    using a b c d by (simp add: runScheduler_def allocates_def DaysInMonth_def InLeapYear_def)
qed

subsection \<open>Rotation pattern engine\<close>

lemma catalogue_nonempty:
  "(i, Some p) \<in> set ps \<Longrightarrow> ROTATION_PATTERNS ind = Some ps \<Longrightarrow> p \<noteq> []"
  by (auto simp add: ROTATION_PATTERNS_def otherPatterns_def split: if_splits)

lemma other_nonempty: "(i, Some p) \<in> set otherPatterns \<Longrightarrow> p \<noteq> []"
  by (auto simp add: otherPatterns_def)

lemma selected_nonempty: "selectedPattern st = Some p \<Longrightarrow> p \<noteq> []"
proof -
  assume a: "selectedPattern st = Some p"
  then obtain i where f: "getSelectedRotationPattern st = Some (i, Some p)"
    by (auto simp add: selectedPattern_def split: option.splits)
  show ?thesis
  proof (cases "ROTATION_PATTERNS (industry st)")
    case None
    with f have "(i, Some p) \<in> set otherPatterns"
      by (auto simp add: getSelectedRotationPattern_def find_Some_iff)
    then show ?thesis by (rule other_nonempty)
  next
    case (Some ps)
    with f have "(i, Some p) \<in> set ps"
      by (auto simp add: getSelectedRotationPattern_def find_Some_iff)
    then show ?thesis using Some by (rule catalogue_nonempty)
  qed
qed

text \<open>
  C6: with a selected pattern \<open>p\<close> of cycle length L and E employees, employee \<open>i\<close> has
  the offset \<open>floor (i * L / E)\<close> and is on-cycle on day \<open>d\<close> exactly when
  \<open>p[(d + offset) mod L]\<close> is 1 (every pattern of the catalogue has L > 0); with no
  pattern selected every employee is on-cycle on every day.
\<close>

theorem C6_rotation_offsets:
  "(selectedPattern st = Some p \<and> i < length (allEmployees st) \<longrightarrow>
      employeePatternOffsets st ! i = (i * length p) div length (allEmployees st) \<and>
      0 < length p \<and>
      shouldWorkOnDay st i d =
        (p ! ((d + (i * length p) div length (allEmployees st)) mod length p) = 1)) \<and>
   (selectedPattern st = None \<longrightarrow> shouldWorkOnDay st i d)"
  using selected_nonempty [of st p]
  by (auto simp add: shouldWorkOnDay_def onCycle_def employeePatternOffsets_def offsetOf_def
      patternOffset_def Let_def)

theorem C6_rotation_offsets_witness:
  "employeePatternOffsets (exampleState\<lparr>rotationPattern := ''4on4off'', groups := twoEmployees\<rparr>) ! 1 = 4 \<and>
   shouldWorkOnDay (exampleState\<lparr>rotationPattern := ''4on4off'', groups := twoEmployees\<rparr>) 1 5 \<and>
   shouldWorkOnDay exampleState 0 5"
proof -
  let ?st = "exampleState\<lparr>rotationPattern := ''4on4off'', groups := twoEmployees\<rparr>"
  have sel: "selectedPattern ?st = Some [1, 1, 1, 1, 0, 0, 0, 0]"
    by (simp add: selectedPattern_def getSelectedRotationPattern_def ROTATION_PATTERNS_def
        exampleState_def)
  have len: "length (allEmployees ?st) = 2"
    by (simp add: allEmployees_def twoEmployees_def)
  have none: "selectedPattern exampleState = None"
    by (simp add: selectedPattern_def getSelectedRotationPattern_def ROTATION_PATTERNS_def
        exampleState_def)
  show ?thesis
    using C6_rotation_offsets [of ?st "[1, 1, 1, 1, 0, 0, 0, 0]" 1 5]
      C6_rotation_offsets [of exampleState "[]" 0 5] sel len none
    by simp
qed

lemma foldl_invariant:
  "P s \<Longrightarrow> (\<And>s x. x \<in> set xs \<Longrightarrow> P s \<Longrightarrow> P (f s x)) \<Longrightarrow> P (foldl f s xs)"
  by (induction xs arbitrary: s) auto

subsection \<open>Assignment engine: shared lemmas\<close>

lemma mset_take_drop: "mset (take n xs) + mset (drop n xs) = mset xs"
  by (metis append_take_drop_id mset_append)

lemma mset_countAndMakeRun:
  "mset (fst (fst (countAndMakeRun comparefn xs s))) = mset xs"
  unfolding countAndMakeRun_def Let_def
  by (simp add: mset_take_drop split: list.splits prod.splits)

lemma mset_binaryInsertionSort:
  "mset (fst (binaryInsertionSort comparefn front rest s)) = mset front + mset rest"
proof (induction rest arbitrary: front s)
  case Nil
  then show ?case by simp
next
  case (Cons pivot rest)
  obtain left s' where f: "findInsertionPoint comparefn pivot front 0 (length front) s = (left, s')"
    by (cases "findInsertionPoint comparefn pivot front 0 (length front) s")
  have "mset (take left front @ pivot # drop left front) = add_mset pivot (mset front)"
    by (metis append_take_drop_id mset_append union_mset_add_mset_right mset.simps(2))
  with Cons [of "take left front @ pivot # drop left front" s'] f show ?case by simp
qed

lemma mset_arraySort: "mset (fst (arraySort comparefn xs s)) = mset xs"
proof (cases "length xs < 2")
  case True
  then show ?thesis by (simp add: arraySort_def)
next
  case False
  obtain ys runLength s' where c: "countAndMakeRun comparefn xs s = ((ys, runLength), s')"
    by (cases "countAndMakeRun comparefn xs s") auto
  then have "mset ys = mset xs"
    using mset_countAndMakeRun [of comparefn xs s] by simp
  moreover have "mset (take runLength ys) + mset (drop runLength ys) = mset ys"
    by (metis append_take_drop_id mset_append)
  ultimately show ?thesis
    using False c by (simp add: arraySort_def mset_binaryInsertionSort)
qed

lemma set_arraySort: "set (fst (arraySort comparefn xs s)) = set xs"
  using mset_arraySort [of comparefn xs s] by (rule mset_eq_setD)

lemma distinct_arraySort: "distinct (fst (arraySort comparefn xs s)) = distinct xs"
  using mset_arraySort [of comparefn xs s] by (rule mset_eq_imp_distinct_iff)

lemma keeps_refl: "keeps g g"
  by (simp add: keeps_def)

lemma keeps_trans: "keeps g g' \<Longrightarrow> keeps g' g'' \<Longrightarrow> keeps g g''"
  by (auto simp add: keeps_def)

lemma nth_write:
  "g[e := (g ! e)[d := v]] ! e' ! d' =
     (if e' = e \<and> e < length g \<and> d' = d \<and> d < length (g ! e) then v else g ! e' ! d')"
  by (cases "e' = e"; cases "e < length g"; cases "d' = d"; cases "d < length (g ! e)")
     (simp_all add: list_update_beyond)

lemma length_write: "length (g[e := (g ! e)[d := v]] ! e') = length (g ! e')"
  by (cases "e' = e"; cases "e < length g") (simp_all add: list_update_beyond)

lemma keeps_write: "g ! e ! d = None \<Longrightarrow> keeps g (g[e := (g ! e)[d := v]])"
  by (auto simp add: keeps_def nth_write length_write)

lemma grid_assignWorking:
  "grid (assignWorking c d e r) = (grid r)[e := (grid r ! e)[d := Some c]]"
  by (simp add: assignWorking_def)

lemma keeps_assignLoop:
  "distinct es \<Longrightarrow> \<forall>e \<in> set es. grid r ! e ! d = None \<Longrightarrow>
   keeps (grid r) (grid (snd (assignLoop c d required es assigned r)))"
proof (induction es arbitrary: assigned r)
  case Nil
  then show ?case by (simp add: keeps_refl)
next
  case (Cons e es)
  show ?case
  proof (cases "int assigned < required")
    case False
    then show ?thesis by (simp add: keeps_refl)
  next
    case True
    let ?r = "assignWorking c d e r"
    have k1: "keeps (grid r) (grid ?r)"
      using Cons.prems by (simp add: grid_assignWorking keeps_write)
    have "\<forall>e' \<in> set es. grid ?r ! e' ! d = None"
      using Cons.prems by (auto simp add: grid_assignWorking nth_write)
    with Cons have "keeps (grid ?r) (grid (snd (assignLoop c d required es (assigned + 1) ?r)))"
      by simp
    with k1 True show ?thesis by (auto intro: keeps_trans)
  qed
qed

lemma grid_seed_update [simp]: "grid (r\<lparr>seed := s\<rparr>) = grid r"
  by simp

lemma available_unassigned: "e \<in> set (available st r shift d) \<Longrightarrow> grid r ! e ! d = None"
  by (auto simp add: available_def isAvailable_def split: if_splits)

lemma distinct_available: "distinct (available st r shift d)"
  by (simp add: available_def)

lemma grid_processShift:
  "grid (processShift rnd st d weekend r shift) =
   grid (snd (assignLoop (code shift) d (requiredCount st weekend shift)
     (fst (arraySort (compareFairness rnd (tally r) shift) (available st r shift d) (seed r))) 0
     (r\<lparr>seed := snd (arraySort (compareFairness rnd (tally r) shift)
                        (available st r shift d) (seed r))\<rparr>)))"
  by (simp add: processShift_def Let_def split: prod.splits)

lemma keeps_processShift: "keeps (grid r) (grid (processShift rnd st d weekend r shift))"
proof -
  let ?srt = "arraySort (compareFairness rnd (tally r) shift) (available st r shift d) (seed r)"
  have "distinct (fst ?srt)"
    by (simp add: distinct_arraySort distinct_available)
  moreover have "\<forall>e \<in> set (fst ?srt). grid (r\<lparr>seed := snd ?srt\<rparr>) ! e ! d = None"
    by (simp add: set_arraySort available_unassigned)
  ultimately have "keeps (grid (r\<lparr>seed := snd ?srt\<rparr>))
      (grid (snd (assignLoop (code shift) d (requiredCount st weekend shift) (fst ?srt) 0
         (r\<lparr>seed := snd ?srt\<rparr>))))"
    by (rule keeps_assignLoop)
  then show ?thesis by (simp add: grid_processShift)
qed

lemma keeps_scheduleDay: "keeps (grid r) (grid (scheduleDay rnd st r dd))"
proof (cases dd)
  case (Pair d date)
  have "keeps (grid r) (grid (foldl (processShift rnd st d (isWeekend date)) r (workingShifts st)))"
    by (rule foldl_invariant [where P = "\<lambda>s. keeps (grid r) (grid s)"])
       (auto intro: keeps_refl keeps_trans keeps_processShift)
  with Pair show ?thesis by (simp add: scheduleDay_def updateConsecutive_def)
qed

lemma keeps_workingPass: "keeps (grid r) (grid (workingPass rnd st dates r))"
  unfolding workingPass_def
  by (rule foldl_invariant [where P = "\<lambda>s. keeps (grid r) (grid s)"])
     (auto intro: keeps_refl keeps_trans keeps_scheduleDay)

lemma keeps_backupStep: "keeps (grid r) (grid (backupStep rnd st c d r e))"
  by (simp add: backupStep_def keeps_refl keeps_write)

lemma keeps_adminStep: "keeps (grid r) (grid (adminStep rnd st c d r e))"
  by (simp add: adminStep_def keeps_refl keeps_write)

lemma keeps_backupFill: "keeps (grid r) (grid (backupFill rnd st n r))"
proof (cases "find (\<lambda>s. stype s = backup) (shifts st)")
  case None
  then show ?thesis by (simp add: backupFill_def keeps_refl)
next
  case (Some b)
  have inner: "keeps (grid s) (grid (foldl (backupStep rnd st (code b) d) s es))" for s d es
    by (rule foldl_invariant [where P = "\<lambda>s'. keeps (grid s) (grid s')"])
       (auto intro: keeps_refl keeps_trans keeps_backupStep)
  have "keeps (grid r) (grid (foldl (\<lambda>r d. foldl (backupStep rnd st (code b) d) r
            [0..<length (allEmployees st)]) r [0..<n]))"
    by (rule foldl_invariant [where P = "\<lambda>s. keeps (grid r) (grid s)"])
       (auto intro: keeps_refl keeps_trans inner)
  with Some show ?thesis by (simp add: backupFill_def)
qed

lemma keeps_adminFill: "keeps (grid r) (grid (adminFill rnd st n r))"
proof (cases "find (\<lambda>s. stype s = admin) (shifts st)")
  case None
  then show ?thesis by (simp add: adminFill_def keeps_refl)
next
  case (Some a)
  have inner: "keeps (grid s) (grid (foldl (adminStep rnd st (code a) d) s es))" for s d es
    by (rule foldl_invariant [where P = "\<lambda>s'. keeps (grid s) (grid s')"])
       (auto intro: keeps_refl keeps_trans keeps_adminStep)
  have "keeps (grid r) (grid (foldl (\<lambda>r d. foldl (adminStep rnd st (code a) d) r
            [0..<length (allEmployees st)]) r [0..<n]))"
    by (rule foldl_invariant [where P = "\<lambda>s. keeps (grid r) (grid s)"])
       (auto intro: keeps_refl keeps_trans inner)
  with Some show ?thesis by (simp add: adminFill_def)
qed

lemma keeps_generate:
  "keeps (prefill dates (allEmployees st)) (grid (generate rnd st dates))"
proof -
  let ?r0 = "initialRun st dates"
  let ?r1 = "workingPass rnd st dates ?r0"
  let ?r2 = "backupFill rnd st (length dates) ?r1"
  let ?r3 = "adminFill rnd st (length dates) ?r2"
  have "grid ?r0 = prefill dates (allEmployees st)" by (simp add: initialRun_def)
  moreover have "keeps (grid ?r0) (grid ?r1)" by (rule keeps_workingPass)
  moreover have "keeps (grid ?r1) (grid ?r2)" by (rule keeps_backupFill)
  moreover have "keeps (grid ?r2) (grid ?r3)" by (rule keeps_adminFill)
  moreover have "grid (generate rnd st dates) = grid ?r3"
    by (simp add: generate_def checkViolations_def)
  ultimately show ?thesis by (metis keeps_trans)
qed

lemma length_applyWindow: "length row = length ds \<Longrightarrow> length (applyWindow ds row u) = length ds"
  by (simp add: applyWindow_def Let_def)

lemma length_prefillRow: "length (prefillRow ds emp) = length ds"
proof -
  have "length (foldl (applyWindow ds) row us) = length ds" if "length row = length ds" for row us
    using that by (induction us arbitrary: row) (simp_all add: length_applyWindow)
  then show ?thesis by (simp add: prefillRow_def)
qed

lemma period_allocates: "periodDates st = Some dates \<Longrightarrow> allocates st"
  by (auto simp add: periodDates_def allocates_def split: option.splits if_splits)

lemma runScheduler_generated:
  "allEmployees st \<noteq> [] \<Longrightarrow> periodDates st = Some dates \<Longrightarrow>
   runScheduler rnd st =
     Generated (st\<lparr>schedule := Some (grid (generate rnd st dates)),
                   shiftCounts := Some (tally (generate rnd st dates)),
                   warnings := warns (generate rnd st dates)\<rparr>)"
  by (simp add: runScheduler_def Let_def period_allocates)

text \<open>
  C1: a cell that the unavailability windows pre-set, to LEAVE, TAD or any other marker,
  holds the same marker in the grid that the run stores, after the working, backup and
  admin passes.
\<close>

theorem C1_absence_preserved:
  assumes "periodDates st = Some dates"
    and "i < length (allEmployees st)" and "d < length dates"
    and "prefill dates (allEmployees st) ! i ! d = Some m"
  shows "\<exists>st' g. runScheduler rnd st = Generated st' \<and> schedule st' = Some g \<and>
           g ! i ! d = Some m"
proof -
  have "length (prefill dates (allEmployees st) ! i) = length dates"
    using assms(2) by (simp add: prefill_def length_prefillRow)
  with keeps_generate [of dates st rnd] assms
  have "grid (generate rnd st dates) ! i ! d = Some m"
    by (auto simp add: keeps_def prefill_def)
  moreover have "allEmployees st \<noteq> []" using assms(2) by auto
  ultimately show ?thesis
    using runScheduler_generated [OF _ assms(1), of rnd] by simp
qed


lemmas calendar_defs = periodDates_def getDaysInPeriod_def getDateForDay_def parseLocalDate_def
  newDate_def TimeClip_def next_day_def prev_day_def DaysInMonth_def InLeapYear_def isWeekend_def getDay_def
  dayNumber_def DayFromYear_def daysBeforeMonth_def formatDateStr_def showInt_def showNat.simps
  padStart2_def str_le_def str_ge_def

lemma daterange_period:
  assumes "calendarStyle st = ''daterange''" and "periodStart st = Some (2025, 5, 1)"
    and "duration st = 3"
  shows "periodDates st = Some examplePeriod"
proof -
  have "newDate 2025 4 1 = Some \<lparr>fullYear = 2025, monthIdx = 4, dayOfMonth = 1\<rparr>"
    by code_simp
  then have d: "getDateForDay st n =
      Some (TimeClip (days_forward n \<lparr>fullYear = 2025, monthIdx = 4, dayOfMonth = 1\<rparr>))" for n
    using assms(1,2) by (simp add: getDateForDay_def parseLocalDate_def)
  have "those_dates (map (\<lambda>n. Some (TimeClip (days_forward n
            \<lparr>fullYear = 2025, monthIdx = 4, dayOfMonth = 1\<rparr>))) [0..<3]) = Some examplePeriod"
    by code_simp
  then have "those_dates (map (getDateForDay st) [0..<3]) = Some examplePeriod"
    unfolding d .
  then show ?thesis
    using assms(1,3) by (simp add: periodDates_def getDaysInPeriod_def)
qed

lemma example_period [simp]: "periodDates (exampleState\<lparr>groups := gs\<rparr>) = Some examplePeriod"
  by (rule daterange_period) (simp_all add: exampleState_def)

lemma example_date_strings [simp]:
  "map formatDateStr examplePeriod = [''2025-05-01'', ''2025-05-02'', ''2025-05-03'']"
  by (simp add: examplePeriod_def calendar_defs)

lemma leave_prefill:
  "prefill examplePeriod (allEmployees (exampleState\<lparr>groups := leaveGroups\<rparr>)) =
     [[None, Some ''LEAVE'', None]]"
  by (simp add: prefill_def prefillRow_def applyWindow_def allEmployees_def leaveGroups_def
      str_le_def str_ge_def numeral_3_eq_3)

theorem C1_absence_preserved_witness:
  "\<exists>st' g. runScheduler noNoise (exampleState\<lparr>groups := leaveGroups\<rparr>) = Generated st' \<and>
     schedule st' = Some g \<and> g ! 0 ! 1 = Some ''LEAVE''"
  using C1_absence_preserved [of "exampleState\<lparr>groups := leaveGroups\<rparr>" examplePeriod 0 1
      "''LEAVE''" noNoise]
  by (simp add: leave_prefill) (simp add: allEmployees_def leaveGroups_def examplePeriod_def)

subsection \<open>Runs depend on the inputs only\<close>

lemma similar_fields:
  assumes "similar st1 st2"
  shows "industry st1 = industry st2" and "calendarStyle st1 = calendarStyle st2"
    and "month st1 = month st2" and "year st1 = year st2"
    and "periodStart st1 = periodStart st2" and "duration st1 = duration st2"
    and "coveragePreset st1 = coveragePreset st2"
    and "rotationPattern st1 = rotationPattern st2" and "shifts st1 = shifts st2"
    and "constraints st1 = constraints st2" and "randomSeed st1 = randomSeed st2"
    and "map name (allEmployees st1) = map name (allEmployees st2)"
    and "map (prefillRow ds) (allEmployees st1) = map (prefillRow ds) (allEmployees st2)"
  using assms by (simp_all add: similar_def)

lemma similar_length:
  assumes "similar st1 st2"
  shows "length (allEmployees st1) = length (allEmployees st2)"
  using similar_fields(12) [OF assms] by (rule map_eq_imp_length_eq)

lemma similar_pattern:
  assumes "similar st1 st2"
  shows "selectedPattern st1 = selectedPattern st2"
  unfolding selectedPattern_def getSelectedRotationPattern_def
    similar_fields(1) [OF assms] similar_fields(8) [OF assms] ..

lemma similar_offsets:
  assumes "similar st1 st2"
  shows "employeePatternOffsets st1 = employeePatternOffsets st2"
  unfolding employeePatternOffsets_def similar_pattern [OF assms] similar_length [OF assms] ..

lemma similar_shouldWork:
  assumes "similar st1 st2"
  shows "shouldWorkOnDay st1 = shouldWorkOnDay st2"
  unfolding shouldWorkOnDay_def [abs_def] similar_pattern [OF assms] similar_offsets [OF assms] ..

lemma similar_numDays:
  assumes "similar st1 st2"
  shows "getDaysInPeriod st1 = getDaysInPeriod st2"
  unfolding getDaysInPeriod_def similar_fields(2-6) [OF assms] ..

lemma similar_dateForDay:
  assumes "similar st1 st2"
  shows "getDateForDay st1 = getDateForDay st2"
  unfolding getDateForDay_def [abs_def] similar_fields(2-6) [OF assms] ..

lemma similar_period:
  assumes "similar st1 st2"
  shows "periodDates st1 = periodDates st2"
  unfolding periodDates_def similar_numDays [OF assms] similar_dateForDay [OF assms] ..

lemma similar_allocates:
  assumes "similar st1 st2"
  shows "allocates st1 = allocates st2"
  unfolding allocates_def similar_numDays [OF assms] ..

lemma similar_workingShifts:
  assumes "similar st1 st2"
  shows "workingShifts st1 = workingShifts st2"
  unfolding workingShifts_def similar_fields(9) [OF assms] ..

lemma similar_required:
  assumes "similar st1 st2"
  shows "requiredCount st1 = requiredCount st2"
  unfolding requiredCount_def [abs_def] getCoverageDefault_def [abs_def]
    similar_fields(7) [OF assms] ..

lemma similar_available:
  assumes "similar st1 st2"
  shows "available st1 = available st2"
  unfolding available_def [abs_def] isAvailable_def [abs_def] similar_shouldWork [OF assms]
    similar_length [OF assms] similar_fields(9,10) [OF assms] ..

lemma similar_processShift:
  assumes "similar st1 st2"
  shows "processShift rnd st1 = processShift rnd st2"
  unfolding processShift_def [abs_def] similar_required [OF assms] similar_available [OF assms] ..

lemma similar_scheduleDay:
  assumes "similar st1 st2"
  shows "scheduleDay rnd st1 = scheduleDay rnd st2"
  unfolding scheduleDay_def [abs_def] similar_processShift [OF assms]
    similar_workingShifts [OF assms] ..

lemma similar_workingPass:
  assumes "similar st1 st2"
  shows "workingPass rnd st1 = workingPass rnd st2"
  unfolding workingPass_def [abs_def] similar_scheduleDay [OF assms] ..

lemma similar_backupStep:
  assumes "similar st1 st2"
  shows "backupStep rnd st1 = backupStep rnd st2"
  unfolding backupStep_def [abs_def] similar_shouldWork [OF assms]
    similar_fields(10) [OF assms] ..

lemma similar_backupFill:
  assumes "similar st1 st2"
  shows "backupFill rnd st1 = backupFill rnd st2"
  unfolding backupFill_def [abs_def] similar_backupStep [OF assms] similar_length [OF assms]
    similar_fields(9) [OF assms] ..

lemma similar_adminStep:
  assumes "similar st1 st2"
  shows "adminStep rnd st1 = adminStep rnd st2"
  unfolding adminStep_def [abs_def] similar_shouldWork [OF assms] ..

lemma similar_adminFill:
  assumes "similar st1 st2"
  shows "adminFill rnd st1 = adminFill rnd st2"
  unfolding adminFill_def [abs_def] similar_adminStep [OF assms] similar_length [OF assms]
    similar_fields(9) [OF assms] ..

lemma checkEmployee_names:
  "map (checkEmployee st) (zip emps rows) =
   map (checkRow (maxConsecutiveDays (constraints st))) (zip (map name emps) rows)"
  by (simp add: zip_map1 checkEmployee_def checkRow_def Let_def case_prod_unfold)

lemma similar_checkViolations:
  assumes "similar st1 st2"
  shows "checkViolations st1 = checkViolations st2"
  unfolding checkViolations_def [abs_def] checkEmployee_names similar_fields(10) [OF assms]
    similar_fields(12) [OF assms] ..

lemma similar_initialRun:
  assumes "similar st1 st2"
  shows "initialRun st1 = initialRun st2"
  unfolding initialRun_def [abs_def] prefill_def similar_length [OF assms]
    similar_fields(11) [OF assms] similar_fields(13) [OF assms] ..

lemma similar_generate:
  assumes "similar st1 st2"
  shows "generate rnd st1 = generate rnd st2"
  unfolding generate_def [abs_def] similar_initialRun [OF assms] similar_workingPass [OF assms]
    similar_backupFill [OF assms] similar_adminFill [OF assms]
    similar_checkViolations [OF assms] ..

lemma similar_outputs:
  assumes "similar st1 st2"
  shows "outputs (runScheduler rnd st1) = outputs (runScheduler rnd st2)"
proof -
  have e: "(allEmployees st1 = []) = (allEmployees st2 = [])"
    using similar_length [OF assms] by auto
  show ?thesis
  proof (cases "allEmployees st2 = []")
    case True
    with e show ?thesis by (simp add: runScheduler_def outputs_def Let_def)
  next
    case False
    with e show ?thesis
      by (cases "periodDates st2")
         (simp_all add: runScheduler_def outputs_def Let_def similar_generate [OF assms]
            similar_period [OF assms] similar_allocates [OF assms])
  qed
qed

lemma allEmployees_skipUndated:
  "allEmployees (skipUndated st) =
   map (\<lambda>e. e\<lparr>unavailability := filter (\<lambda>u. startDate u \<noteq> []) (unavailability e)\<rparr>)
       (allEmployees st)"
  by (simp add: allEmployees_def skipUndated_def map_concat comp_def)

lemma foldl_applyWindow_filter:
  "foldl (applyWindow ds) row (filter (\<lambda>u. startDate u \<noteq> []) us) = foldl (applyWindow ds) row us"
  by (induction us arbitrary: row) (simp_all add: applyWindow_def)

lemma similar_skipUndated: "similar (skipUndated st) st"
  by (simp add: similar_def allEmployees_skipUndated prefillRow_def foldl_applyWindow_filter
      comp_def)
     (simp add: skipUndated_def)

subsection \<open>Windows with a missing date\<close>

lemma initial_leave:
  "initialRun (exampleState\<lparr>groups := leaveGroups\<rparr>) examplePeriod =
     \<lparr>grid = [[None, Some ''LEAVE'', None]],
      tally = [\<lparr>totalAssigned = 0, nightAssigned = 0\<rparr>],
      consecutiveDays = [0], seed = 7, warns = []\<rparr>"
  by (simp add: initialRun_def leave_prefill)
     (simp add: allEmployees_def leaveGroups_def exampleState_def)

lemma run_leave:
  "generate noNoise (exampleState\<lparr>groups := leaveGroups\<rparr>) examplePeriod =
     \<lparr>grid = [[Some ''D'', Some ''LEAVE'', Some ''D'']],
      tally = [\<lparr>totalAssigned = 2, nightAssigned = 0\<rparr>],
      consecutiveDays = [1], seed = 7,
      warns = [Understaffed 2 ''D'' 0 1]\<rparr>"
  unfolding generate_def initial_leave by code_simp

text \<open>
  C8, as stated, fails for a window with a start date and no end date: the only window
  of the only employee is such a window, and the run marks its start date as LEAVE.
\<close>

theorem C8_missing_end_counterexample:
  "map endDate (concat (map unavailability (allEmployees (exampleState\<lparr>groups := leaveGroups\<rparr>))))
     = [[]] \<and>
   outputs (runScheduler noNoise (exampleState\<lparr>groups := leaveGroups\<rparr>)) =
     Some (Some [[Some ''D'', Some ''LEAVE'', Some ''D'']],
           Some [\<lparr>totalAssigned = 2, nightAssigned = 0\<rparr>],
           [Understaffed 2 ''D'' 0 1])"
proof -
  have "allEmployees (exampleState\<lparr>groups := leaveGroups\<rparr>) \<noteq> []"
    by (simp add: allEmployees_def leaveGroups_def)
  then show ?thesis
    using runScheduler_generated [of "exampleState\<lparr>groups := leaveGroups\<rparr>" examplePeriod
        noNoise]
    by (simp add: outputs_def run_leave) (simp add: allEmployees_def leaveGroups_def)
qed

text \<open>
  C8, amended: a window with a missing start date is skipped. It pre-sets no cell and
  raises no error, and the run produces what it produces without the window. A window
  with a start date and a missing end date is not skipped: it is applied as the one-day
  window that ends on its start date.
\<close>

theorem C8_undated_windows:
  "outputs (runScheduler rnd (skipUndated st)) = outputs (runScheduler rnd st) \<and>
   (startDate u \<noteq> [] \<and> endDate u = [] \<longrightarrow>
      applyWindow ds row u = applyWindow ds row (u\<lparr>endDate := startDate u\<rparr>))"
  using similar_outputs [OF similar_skipUndated, of rnd st]
  by (simp add: applyWindow_def)

theorem C8_undated_windows_witness:
  "outputs (runScheduler noNoise (exampleState\<lparr>groups := undatedGroups\<rparr>)) =
     outputs (runScheduler noNoise exampleState) \<and>
   applyWindow [''2025-05-01'', ''2025-05-02'', ''2025-05-03''] [None, None, None]
     \<lparr>utype = ''LEAVE'', startDate = ''2025-05-02'', endDate = []\<rparr> =
     [None, Some ''LEAVE'', None]"
proof -
  have "skipUndated (exampleState\<lparr>groups := undatedGroups\<rparr>) = exampleState"
    by (simp add: skipUndated_def undatedGroups_def exampleState_def)
  then show ?thesis
    using C8_undated_windows [of noNoise "exampleState\<lparr>groups := undatedGroups\<rparr>"
        "\<lparr>utype = ''LEAVE'', startDate = ''2025-05-02'', endDate = []\<rparr>"
        "[''2025-05-01'', ''2025-05-02'', ''2025-05-03'']" "[None, None, None]"]
    by (simp add: applyWindow_def str_le_def str_ge_def)
qed

subsection \<open>Fairness counters\<close>

lemma filter_update_new:
  "d < length row \<Longrightarrow> \<not> P (row ! d) \<Longrightarrow> P v \<Longrightarrow>
   length (filter P (row[d := v])) = Suc (length (filter P row))"
  by (induction row arbitrary: d) (auto simp add: nth_Cons split: nat.splits)

lemma filter_update_same:
  "\<not> P (row ! d) \<Longrightarrow> \<not> P v \<Longrightarrow> length (filter P (row[d := v])) = length (filter P row)"
  by (induction row arbitrary: d) (auto simp add: nth_Cons split: nat.splits)

lemma find_distinct_code:
  "distinct (map code ss) \<Longrightarrow> s \<in> set ss \<Longrightarrow> find (\<lambda>s'. code s' = code s) ss = Some s"
  by (induction ss) auto

lemma category_member:
  "distinct (map code ss) \<Longrightarrow> s \<in> set ss \<Longrightarrow> category ss (code s) = Some (stype s)"
  by (simp add: category_def find_distinct_code)

lemma category_absent: "c \<notin> set (map code ss) \<Longrightarrow> category ss c = None"
  by (auto simp add: category_def find_None_iff)

text \<open>Writing a cell together with the counters.\<close>

lemma consistent_write:
  assumes c: "consistent ss E n g t" and e: "e < E" and d: "d < n"
    and free: "g ! e ! d = None"
    and tot: "totalAssigned cnt' =
                (if countsTowardTotal ss (Some c') then Suc (totalAssigned (t ! e))
                 else totalAssigned (t ! e))"
    and ngt: "nightAssigned cnt' =
                (if holdsNight ss (Some c') then Suc (nightAssigned (t ! e))
                 else nightAssigned (t ! e))"
  shows "consistent ss E n (g[e := (g ! e)[d := Some c']]) (t[e := cnt'])"
proof -
  have len: "length g = E" "length t = E" "length (g ! e) = n"
    using c e by (simp_all add: consistent_def)
  have n1: "\<not> countsTowardTotal ss (g ! e ! d)" "\<not> holdsNight ss (g ! e ! d)"
    using free by (simp_all add: countsTowardTotal_def holdsNight_def)
  have a: "length (filter (countsTowardTotal ss) ((g ! e)[d := Some c'])) = totalAssigned cnt'"
    using c e d len n1 tot
    by (cases "countsTowardTotal ss (Some c')")
       (simp_all add: filter_update_new filter_update_same consistent_def)
  have b: "length (filter (holdsNight ss) ((g ! e)[d := Some c'])) = nightAssigned cnt'"
    using c e d len n1 ngt
    by (cases "holdsNight ss (Some c')")
       (simp_all add: filter_update_new filter_update_same consistent_def)
  show ?thesis
    unfolding consistent_def
  proof (intro conjI allI impI)
    fix e' assume e': "e' < E"
    show "length (g[e := (g ! e)[d := Some c']] ! e') = n"
      using c e' len by (cases "e' = e") (simp_all add: consistent_def)
    show "totalAssigned (t[e := cnt'] ! e') =
          length (filter (countsTowardTotal ss) (g[e := (g ! e)[d := Some c']] ! e'))"
      using c e e' len a by (cases "e' = e") (simp_all add: consistent_def)
    show "nightAssigned (t[e := cnt'] ! e') =
          length (filter (holdsNight ss) (g[e := (g ! e)[d := Some c']] ! e'))"
      using c e e' len b by (cases "e' = e") (simp_all add: consistent_def)
  qed (simp_all add: len)
qed


lemma agrees_seed [simp]: "agrees st n (r\<lparr>seed := s\<rparr>) = agrees st n r"
  by (simp add: agrees_def)

lemma agrees_warns [simp]: "agrees st n (r\<lparr>warns := w\<rparr>) = agrees st n r"
  by (simp add: agrees_def)

lemma agrees_consecutive [simp]: "agrees st n (r\<lparr>consecutiveDays := c\<rparr>) = agrees st n r"
  by (simp add: agrees_def)

lemma working_code:
  assumes "catalogueOk st" and "shift \<in> set (workingShifts st)"
  shows "category (shifts st) (code shift) = Some working"
proof -
  have "shift \<in> set (shifts st)" "stype shift = working"
    using assms(2) by (simp_all add: workingShifts_def)
  then show ?thesis
    using assms(1) category_member [of "shifts st" shift] by (simp add: catalogueOk_def)
qed

lemma agrees_assignWorking:
  assumes "agrees st n r" and "e < length (allEmployees st)" and "d < n"
    and "grid r ! e ! d = None" and "category (shifts st) c = Some working"
  shows "agrees st n (assignWorking c d e r)"
proof -
  have "consistent (shifts st) (length (allEmployees st)) n
          ((grid r)[e := (grid r ! e)[d := Some c]])
          ((tally r)[e := \<lparr>totalAssigned = totalAssigned (tally r ! e) + 1,
              nightAssigned = (if c = ''N'' then nightAssigned (tally r ! e) + 1
                               else nightAssigned (tally r ! e))\<rparr>])"
    using assms unfolding agrees_def
    by (intro consistent_write) (auto simp add: countsTowardTotal_def holdsNight_def)
  then show ?thesis by (simp add: agrees_def assignWorking_def)
qed

lemma agrees_assignLoop:
  assumes "category (shifts st) c = Some working" and "d < n"
  shows "agrees st n r \<Longrightarrow> distinct es \<Longrightarrow>
     \<forall>e \<in> set es. e < length (allEmployees st) \<and> grid r ! e ! d = None \<Longrightarrow>
     agrees st n (snd (assignLoop c d required es assigned r))"
proof (induction es arbitrary: assigned r)
  case Nil
  then show ?case by simp
next
  case (Cons e es)
  show ?case
  proof (cases "int assigned < required")
    case False
    with Cons.prems show ?thesis by simp
  next
    case True
    let ?r = "assignWorking c d e r"
    have "agrees st n ?r"
      using Cons.prems assms by (intro agrees_assignWorking) auto
    moreover have "distinct es" using Cons.prems by simp
    moreover have "\<forall>e' \<in> set es. e' < length (allEmployees st) \<and> grid ?r ! e' ! d = None"
      using Cons.prems by (auto simp add: grid_assignWorking nth_write)
    ultimately have "agrees st n (snd (assignLoop c d required es (assigned + 1) ?r))"
      by (rule Cons.IH)
    with True show ?thesis by simp
  qed
qed

lemma available_bound: "e \<in> set (available st r shift d) \<Longrightarrow> e < length (allEmployees st)"
  by (simp add: available_def)

lemma processShift_assignLoop:
  "\<exists>w. processShift rnd st d weekend r shift =
     (snd (assignLoop (code shift) d (requiredCount st weekend shift)
        (fst (arraySort (compareFairness rnd (tally r) shift) (available st r shift d) (seed r))) 0
        (r\<lparr>seed := snd (arraySort (compareFairness rnd (tally r) shift)
                           (available st r shift d) (seed r))\<rparr>)))\<lparr>warns := w\<rparr>"
proof -
  let ?srt = "arraySort (compareFairness rnd (tally r) shift) (available st r shift d) (seed r)"
  let ?res = "assignLoop (code shift) d (requiredCount st weekend shift) (fst ?srt) 0
                (r\<lparr>seed := snd ?srt\<rparr>)"
  show ?thesis
  proof (cases "int (fst ?res) < requiredCount st weekend shift")
    case True
    then show ?thesis
      by (simp add: processShift_def Let_def case_prod_unfold) blast
  next
    case False
    then have "processShift rnd st d weekend r shift = (snd ?res)\<lparr>warns := warns (snd ?res)\<rparr>"
      by (simp add: processShift_def Let_def case_prod_unfold)
    then show ?thesis by blast
  qed
qed

lemma agrees_processShift:
  assumes "catalogueOk st" and "shift \<in> set (workingShifts st)" and "d < n"
    and "agrees st n r"
  shows "agrees st n (processShift rnd st d weekend r shift)"
proof -
  let ?srt = "arraySort (compareFairness rnd (tally r) shift) (available st r shift d) (seed r)"
  have "agrees st n (snd (assignLoop (code shift) d (requiredCount st weekend shift) (fst ?srt) 0
          (r\<lparr>seed := snd ?srt\<rparr>)))"
  proof (rule agrees_assignLoop)
    show "category (shifts st) (code shift) = Some working"
      using assms(1,2) by (rule working_code)
    show "d < n" by fact
    show "agrees st n (r\<lparr>seed := snd ?srt\<rparr>)" using assms(4) by simp
    show "distinct (fst ?srt)" by (simp add: distinct_arraySort distinct_available)
    show "\<forall>e \<in> set (fst ?srt). e < length (allEmployees st) \<and>
            grid (r\<lparr>seed := snd ?srt\<rparr>) ! e ! d = None"
      by (simp add: set_arraySort available_unassigned available_bound)
  qed
  then show ?thesis
    using processShift_assignLoop [of rnd st d weekend r shift] by auto
qed

lemma agrees_scheduleDay:
  assumes "catalogueOk st" and "fst dd < n" and "agrees st n r"
  shows "agrees st n (scheduleDay rnd st r dd)"
proof (cases dd)
  case (Pair d date)
  have "agrees st n (foldl (processShift rnd st d (isWeekend date)) r (workingShifts st))"
    using assms Pair
    by (intro foldl_invariant [where P = "agrees st n"]) (auto intro: agrees_processShift)
  with Pair show ?thesis by (simp add: scheduleDay_def updateConsecutive_def)
qed

lemma agrees_workingPass:
  assumes "catalogueOk st" and "agrees st (length dates) r"
  shows "agrees st (length dates) (workingPass rnd st dates r)"
  unfolding workingPass_def
proof (rule foldl_invariant [where P = "agrees st (length dates)"])
  show "agrees st (length dates) r" by fact
next
  fix s dd
  assume dd: "dd \<in> set (zip [0..<length dates] dates)" and s: "agrees st (length dates) s"
  obtain d date where p: "dd = (d, date)" by (cases dd)
  with dd have "d \<in> set [0..<length dates]" by (auto dest: set_zip_leftD)
  with p have "fst dd < length dates" by simp
  with assms(1) s show "agrees st (length dates) (scheduleDay rnd st s dd)"
    by (intro agrees_scheduleDay)
qed

lemma agrees_backupStep:
  assumes "catalogueOk st" and "find (\<lambda>s. stype s = backup) (shifts st) = Some b"
    and "e < length (allEmployees st)" and "d < n" and "agrees st n r"
  shows "agrees st n (backupStep rnd st (code b) d r e)"
proof -
  have "b \<in> set (shifts st)" "stype b = backup"
    using assms(2) by (auto simp add: find_Some_iff)
  then have cat: "category (shifts st) (code b) = Some backup"
    using assms(1) category_member [of "shifts st" b] by (simp add: catalogueOk_def)
  have "consistent (shifts st) (length (allEmployees st)) n
          ((grid r)[e := (grid r ! e)[d := Some (code b)]])
          ((tally r)[e := (tally r ! e)\<lparr>totalAssigned := totalAssigned (tally r ! e) + 1\<rparr>])"
    if "grid r ! e ! d = None"
    using assms(3-5) that cat unfolding agrees_def
    by (intro consistent_write) (auto simp add: countsTowardTotal_def holdsNight_def)
  then show ?thesis
    using assms(5) by (simp add: backupStep_def agrees_def)
qed

lemma agrees_adminStep:
  assumes "catalogueOk st" and "find (\<lambda>s. stype s = admin) (shifts st) = Some a"
    and "e < length (allEmployees st)" and "d < n" and "agrees st n r"
  shows "agrees st n (adminStep rnd st (code a) d r e)"
proof -
  have "a \<in> set (shifts st)" "stype a = admin"
    using assms(2) by (auto simp add: find_Some_iff)
  then have cat: "category (shifts st) (code a) = Some admin"
    using assms(1) category_member [of "shifts st" a] by (simp add: catalogueOk_def)
  have "consistent (shifts st) (length (allEmployees st)) n
          ((grid r)[e := (grid r ! e)[d := Some (code a)]])
          ((tally r)[e := tally r ! e])"
    if "grid r ! e ! d = None"
    using assms(3-5) that cat unfolding agrees_def
    by (intro consistent_write) (auto simp add: countsTowardTotal_def holdsNight_def)
  then show ?thesis
    using assms(5) by (simp add: adminStep_def agrees_def)
qed

lemma agrees_backupFill:
  assumes "catalogueOk st" and "agrees st n r"
  shows "agrees st n (backupFill rnd st n r)"
proof (cases "find (\<lambda>s. stype s = backup) (shifts st)")
  case None
  with assms show ?thesis by (simp add: backupFill_def)
next
  case (Some b)
  have inner: "agrees st n (foldl (backupStep rnd st (code b) d) s [0..<length (allEmployees st)])"
    if "agrees st n s" "d < n" for s d
    using that assms(1) Some
    by (intro foldl_invariant [where P = "agrees st n"]) (auto intro: agrees_backupStep)
  have "agrees st n (foldl (\<lambda>r d. foldl (backupStep rnd st (code b) d) r
            [0..<length (allEmployees st)]) r [0..<n])"
    using assms(2)
    by (rule foldl_invariant [where P = "agrees st n"]) (simp add: inner)
  with Some show ?thesis by (simp add: backupFill_def)
qed

lemma agrees_adminFill:
  assumes "catalogueOk st" and "agrees st n r"
  shows "agrees st n (adminFill rnd st n r)"
proof (cases "find (\<lambda>s. stype s = admin) (shifts st)")
  case None
  with assms show ?thesis by (simp add: adminFill_def)
next
  case (Some a)
  have inner: "agrees st n (foldl (adminStep rnd st (code a) d) s [0..<length (allEmployees st)])"
    if "agrees st n s" "d < n" for s d
    using that assms(1) Some
    by (intro foldl_invariant [where P = "agrees st n"]) (auto intro: agrees_adminStep)
  have "agrees st n (foldl (\<lambda>r d. foldl (adminStep rnd st (code a) d) r
            [0..<length (allEmployees st)]) r [0..<n])"
    using assms(2)
    by (rule foldl_invariant [where P = "agrees st n"]) (simp add: inner)
  with Some show ?thesis by (simp add: adminFill_def)
qed

text \<open>The pre-filled rows hold nothing but the markers of the windows.\<close>

lemma applyWindow_cells:
  "\<forall>c \<in> set row. Q c \<Longrightarrow> Q (Some (utype u)) \<Longrightarrow> \<forall>c \<in> set (applyWindow ds row u). Q c"
  by (auto simp add: applyWindow_def Let_def split: if_splits dest: set_zip_rightD)

lemma prefillRow_cells:
  "\<forall>c \<in> set (prefillRow ds emp). c = None \<or> (\<exists>u \<in> set (unavailability emp). c = Some (utype u))"
  unfolding prefillRow_def
  by (rule foldl_invariant
        [where P = "\<lambda>row. \<forall>c \<in> set row. c = None \<or>
                            (\<exists>u \<in> set (unavailability emp). c = Some (utype u))"])
     (simp, rule applyWindow_cells, auto)

lemma filter_none: "\<forall>c \<in> set row. \<not> P c \<Longrightarrow> length (filter P row) = 0"
  by (induction row) auto

lemma agrees_initialRun:
  assumes "catalogueOk st"
  shows "agrees st (length dates) (initialRun st dates)"
proof -
  have cells: "\<not> countsTowardTotal (shifts st) cl \<and> \<not> holdsNight (shifts st) cl"
    if "e \<in> set (allEmployees st)" "cl \<in> set (prefillRow ds e)" for e cl ds
  proof -
    from prefillRow_cells that(2)
    consider "cl = None" | u where "u \<in> set (unavailability e)" "cl = Some (utype u)"
      by blast
    then show ?thesis
    proof cases
      case 1
      then show ?thesis by (simp add: countsTowardTotal_def holdsNight_def)
    next
      case 2
      then have "utype u = ''LEAVE'' \<or> utype u = ''TAD''"
        using assms that(1) by (auto simp add: catalogueOk_def list_all_iff)
      then have "category (shifts st) (utype u) = None" "utype u \<noteq> ''N''"
        using assms by (auto simp add: catalogueOk_def intro: category_absent)
      with 2 show ?thesis by (simp add: countsTowardTotal_def holdsNight_def)
    qed
  qed
  have "filter (countsTowardTotal (shifts st)) (prefillRow ds (allEmployees st ! e)) = []"
    and "filter (holdsNight (shifts st)) (prefillRow ds (allEmployees st ! e)) = []"
    if "e < length (allEmployees st)" for e ds
    using cells [of "allEmployees st ! e" _ ds] that by (auto simp add: filter_empty_conv)
  then show ?thesis
    unfolding agrees_def consistent_def
    by (simp add: initialRun_def prefill_def length_prefillRow)
qed

lemma agrees_generate:
  assumes "catalogueOk st"
  shows "agrees st (length dates) (generate rnd st dates)"
  unfolding generate_def checkViolations_def
  using assms
  by (simp add: agrees_adminFill agrees_backupFill agrees_workingPass agrees_initialRun)

lemma dup_period: "periodDates dupState = Some examplePeriod"
  by (rule daterange_period) (simp_all add: dupState_def capState_def exampleState_def)

lemma initial_dup:
  "initialRun dupState examplePeriod =
     \<lparr>grid = [[None, None, None]],
      tally = [\<lparr>totalAssigned = 0, nightAssigned = 0\<rparr>],
      consecutiveDays = [0], seed = 44, warns = []\<rparr>"
  by (simp add: initialRun_def prefill_def prefillRow_def allEmployees_def dupState_def
      capState_def exampleState_def examplePeriod_def)

lemma run_dup:
  "generate sineDraws dupState examplePeriod =
     \<lparr>grid = [[Some ''D'', Some ''D'', Some ''D'']],
      tally = [\<lparr>totalAssigned = 2, nightAssigned = 0\<rparr>],
      consecutiveDays = [0], seed = 45,
      warns = [Understaffed 3 ''D'' 0 1, ConsecutiveOverrun ''Ann'' 3 2]\<rparr>"
  unfolding generate_def initial_dup by code_simp

text \<open>
  C10, as stated, fails when two shifts of the catalogue have the same code, which the
  code does not prevent. With a working shift D, an admin shift D, at most 2 consecutive
  days and the seed 44, the employee works D on the first two days and the admin fill,
  whose draw is 0.019251, writes D on the third: the three cells of the row hold the code
  of a working shift and the total is 2.
\<close>

theorem C10_duplicate_code_counterexample:
  "outputs (runScheduler sineDraws dupState) =
     Some (Some [[Some ''D'', Some ''D'', Some ''D'']],
           Some [\<lparr>totalAssigned = 2, nightAssigned = 0\<rparr>],
           [Understaffed 3 ''D'' 0 1, ConsecutiveOverrun ''Ann'' 3 2]) \<and>
   length (filter (countsTowardTotal (shifts dupState))
             [Some ''D'', Some ''D'', Some ''D'']) = 3"
proof -
  have "allEmployees dupState \<noteq> []"
    by (simp add: allEmployees_def dupState_def capState_def exampleState_def)
  then have "outputs (runScheduler sineDraws dupState) =
     Some (Some [[Some ''D'', Some ''D'', Some ''D'']],
           Some [\<lparr>totalAssigned = 2, nightAssigned = 0\<rparr>],
           [Understaffed 3 ''D'' 0 1, ConsecutiveOverrun ''Ann'' 3 2])"
    using runScheduler_generated [OF _ dup_period, of sineDraws]
    by (simp add: outputs_def run_dup)
  moreover have "length (filter (countsTowardTotal (shifts dupState))
      [Some ''D'', Some ''D'', Some ''D'']) = 3"
    by (simp add: countsTowardTotal_def category_def dupState_def)
  ultimately show ?thesis by blast
qed

text \<open>
  C10, amended: when the codes of the catalogue are distinct and differ from LEAVE and
  TAD, and every window is a LEAVE or a TAD window, the counters that a run stores agree
  with the grid it stores. For every employee the total is the number of days whose cell
  holds a code of the working or backup category, and the night count is the number of
  days whose cell holds the working code N; cells with an admin code, LEAVE or TAD count
  for neither.
\<close>

theorem C10_counters_match_grid:
  assumes "catalogueOk st" and "periodDates st = Some dates" and "i < length (allEmployees st)"
  shows "\<exists>st' g t. runScheduler rnd st = Generated st' \<and> schedule st' = Some g \<and>
           shiftCounts st' = Some t \<and>
           totalAssigned (t ! i) = length (filter (countsTowardTotal (shifts st)) (g ! i)) \<and>
           nightAssigned (t ! i) = length (filter (holdsNight (shifts st)) (g ! i))"
proof -
  have "allEmployees st \<noteq> []" using assms(3) by auto
  then show ?thesis
    using runScheduler_generated [OF _ assms(2), of rnd] agrees_generate [OF assms(1), of dates rnd]
      assms(3)
    by (simp add: agrees_def consistent_def)
qed

theorem C10_counters_match_grid_witness:
  "\<exists>st' g t. runScheduler noNoise (exampleState\<lparr>groups := leaveGroups\<rparr>) = Generated st' \<and>
     schedule st' = Some g \<and> shiftCounts st' = Some t \<and>
     totalAssigned (t ! 0) = length (filter (countsTowardTotal [\<lparr>code = ''D'', stype = working,
        coverage = Some 1\<rparr>]) (g ! 0)) \<and>
     nightAssigned (t ! 0) = length (filter (holdsNight [\<lparr>code = ''D'', stype = working,
        coverage = Some 1\<rparr>]) (g ! 0))"
  using C10_counters_match_grid [of "exampleState\<lparr>groups := leaveGroups\<rparr>" examplePeriod 0
      noNoise]
  by (simp add: catalogueOk_def) (simp add: exampleState_def allEmployees_def leaveGroups_def)

subsection \<open>Constraint check\<close>

lemma leading_le_longest: "length (takeWhile P xs) \<le> longestRun P xs"
  by (cases xs) simp_all

lemma scanRow_longest_gen:
  "c \<le> m \<Longrightarrow>
   scanRow xs c m = max m (max (c + length (takeWhile worked xs)) (longestRun worked xs))"
proof (induction xs arbitrary: c m)
  case Nil
  then show ?case by simp
next
  case (Cons x xs)
  show ?case
  proof (cases "worked x")
    case True
    have "c + 1 \<le> max m (c + 1)" by simp
    from Cons.IH [OF this] True show ?thesis
      using leading_le_longest [of worked xs] by simp arith
  next
    case False
    from Cons.IH [of 0 m] False Cons.prems show ?thesis
      using leading_le_longest [of worked xs] by simp
  qed
qed

lemma scanRow_longest: "scanRow row 0 0 = longestRun worked row"
  using scanRow_longest_gen [of 0 0 row] leading_le_longest [of worked row] by simp

lemma warns_assignWorking [simp]: "warns (assignWorking c d e r) = warns r"
  by (simp add: assignWorking_def)

lemma warns_assignLoop [simp]: "warns (snd (assignLoop c d required es assigned r)) = warns r"
  by (induction es arbitrary: assigned r) simp_all

lemma warns_processShift:
  "warns (processShift rnd st d weekend r shift) =
   warns r @
   (let srt = arraySort (compareFairness rnd (tally r) shift) (available st r shift d) (seed r);
        assigned = fst (assignLoop (code shift) d (requiredCount st weekend shift) (fst srt) 0
                          (r\<lparr>seed := snd srt\<rparr>))
    in if int assigned < requiredCount st weekend shift
       then [Understaffed (d + 1) (code shift) assigned (requiredCount st weekend shift)]
       else [])"
proof -
  let ?srt = "arraySort (compareFairness rnd (tally r) shift) (available st r shift d) (seed r)"
  have "warns (snd (assignLoop (code shift) d (requiredCount st weekend shift) (fst ?srt) 0
          (r\<lparr>seed := snd ?srt\<rparr>))) = warns r"
    by simp
  then show ?thesis
    by (simp add: processShift_def Let_def case_prod_unfold)
qed

lemma shortfalls_processShift:
  "onlyShortfalls r \<Longrightarrow> onlyShortfalls (processShift rnd st d weekend r shift)"
  by (simp add: onlyShortfalls_def warns_processShift Let_def)

lemma shortfalls_scheduleDay: "onlyShortfalls r \<Longrightarrow> onlyShortfalls (scheduleDay rnd st r dd)"
proof (cases dd)
  case (Pair d date)
  assume "onlyShortfalls r"
  then have "onlyShortfalls (foldl (processShift rnd st d (isWeekend date)) r (workingShifts st))"
    by (rule foldl_invariant) (rule shortfalls_processShift)
  with Pair show ?thesis
    by (simp add: scheduleDay_def updateConsecutive_def onlyShortfalls_def)
qed

lemma shortfalls_workingPass:
  "onlyShortfalls r \<Longrightarrow> onlyShortfalls (workingPass rnd st dates r)"
  unfolding workingPass_def by (rule foldl_invariant) (simp_all add: shortfalls_scheduleDay)

lemma warns_backupStep [simp]: "warns (backupStep rnd st c d r e) = warns r"
  by (simp add: backupStep_def)

lemma warns_adminStep [simp]: "warns (adminStep rnd st c d r e) = warns r"
  by (simp add: adminStep_def)

lemma warns_backupFill [simp]: "warns (backupFill rnd st n r) = warns r"
proof (cases "find (\<lambda>s. stype s = backup) (shifts st)")
  case None
  then show ?thesis by (simp add: backupFill_def)
next
  case (Some b)
  have inner: "warns (foldl (backupStep rnd st (code b) d) s es) = warns s" for s d es
    by (induction es arbitrary: s) simp_all
  have "warns (foldl (\<lambda>r d. foldl (backupStep rnd st (code b) d) r
            [0..<length (allEmployees st)]) s ds) = warns s" for s ds
    by (induction ds arbitrary: s) (simp_all add: inner)
  with Some show ?thesis by (simp add: backupFill_def)
qed

lemma warns_adminFill [simp]: "warns (adminFill rnd st n r) = warns r"
proof (cases "find (\<lambda>s. stype s = admin) (shifts st)")
  case None
  then show ?thesis by (simp add: adminFill_def)
next
  case (Some a)
  have inner: "warns (foldl (adminStep rnd st (code a) d) s es) = warns s" for s d es
    by (induction es arbitrary: s) simp_all
  have "warns (foldl (\<lambda>r d. foldl (adminStep rnd st (code a) d) r
            [0..<length (allEmployees st)]) s ds) = warns s" for s ds
    by (induction ds arbitrary: s) (simp_all add: inner)
  with Some show ?thesis by (simp add: adminFill_def)
qed

lemma admin_period: "periodDates adminState = Some examplePeriod"
  by (rule daterange_period) (simp_all add: adminState_def exampleState_def)

lemma initial_admin:
  "initialRun adminState examplePeriod =
     \<lparr>grid = [[None, None, None]],
      tally = [\<lparr>totalAssigned = 0, nightAssigned = 0\<rparr>],
      consecutiveDays = [0], seed = 7, warns = []\<rparr>"
  by (simp add: initialRun_def prefill_def prefillRow_def allEmployees_def adminState_def
      exampleState_def examplePeriod_def)

lemma run_admin:
  "generate noNoise adminState examplePeriod =
     \<lparr>grid = [[Some ''A'', Some ''A'', Some ''A'']],
      tally = [\<lparr>totalAssigned = 0, nightAssigned = 0\<rparr>],
      consecutiveDays = [0], seed = 10,
      warns = [ConsecutiveOverrun ''Ann'' 3 2]\<rparr>"
  unfolding generate_def initial_admin by code_simp

lemma checkEmployee_longest:
  "checkEmployee st =
   (\<lambda>(emp, row).
      if maxConsecutiveDays (constraints st) < int (longestRun worked row)
      then [ConsecutiveOverrun (name emp) (longestRun worked row)
              (maxConsecutiveDays (constraints st))]
      else [])"
  by (intro ext) (simp add: checkEmployee_def scanRow_longest Let_def case_prod_unfold)

text \<open>
  C7, as stated, fails when backup or admin days extend a run. With one admin shift and
  no working shift the three days of the employee are admin days: the longest run of
  days with a working code is 0, the limit is 2, and the run warns of 3 consecutive days.
\<close>

theorem C7_admin_days_counterexample:
  "outputs (runScheduler noNoise adminState) =
     Some (Some [[Some ''A'', Some ''A'', Some ''A'']],
           Some [\<lparr>totalAssigned = 0, nightAssigned = 0\<rparr>],
           [ConsecutiveOverrun ''Ann'' 3 2]) \<and>
   longestRun (holdsWorking (shifts adminState)) [Some ''A'', Some ''A'', Some ''A''] = 0 \<and>
   maxConsecutiveDays (constraints adminState) = 2"
proof -
  have "allEmployees adminState \<noteq> []"
    by (simp add: allEmployees_def adminState_def exampleState_def)
  then have "outputs (runScheduler noNoise adminState) =
     Some (Some [[Some ''A'', Some ''A'', Some ''A'']],
           Some [\<lparr>totalAssigned = 0, nightAssigned = 0\<rparr>],
           [ConsecutiveOverrun ''Ann'' 3 2])"
    using runScheduler_generated [OF _ admin_period, of noNoise]
    by (simp add: outputs_def run_admin)
  moreover have "longestRun (holdsWorking (shifts adminState))
      [Some ''A'', Some ''A'', Some ''A''] = 0"
    by (simp add: holdsWorking_def category_def adminState_def)
  moreover have "maxConsecutiveDays (constraints adminState) = 2"
    by (simp add: adminState_def)
  ultimately show ?thesis by blast
qed

text \<open>
  C7, amended: after the three passes the constraint check appends, for every employee
  in roster order, a consecutive-day warning with the name of the employee if and only
  if the longest run of consecutive days whose cell holds any shift code, working,
  backup or admin (a value that is not empty and is neither LEAVE nor TAD), exceeds
  \<open>maxConsecutiveDays\<close>; the warning reports that run length and the limit. The
  warnings before them are shortfall warnings, and the check leaves the grid as it is.
\<close>

theorem C7_overrun_warnings:
  assumes "periodDates st = Some dates" and "allEmployees st \<noteq> []"
  shows "\<exists>st' g shortfalls.
           runScheduler rnd st = Generated st' \<and> schedule st' = Some g \<and>
           list_all isShortfall shortfalls \<and>
           warnings st' = shortfalls @
             concat (map (\<lambda>(emp, row).
                            if maxConsecutiveDays (constraints st) < int (longestRun worked row)
                            then [ConsecutiveOverrun (name emp) (longestRun worked row)
                                    (maxConsecutiveDays (constraints st))]
                            else [])
                         (zip (allEmployees st) g))"
proof -
  let ?r1 = "workingPass rnd st dates (initialRun st dates)"
  let ?r3 = "adminFill rnd st (length dates) (backupFill rnd st (length dates) ?r1)"
  have "onlyShortfalls (initialRun st dates)"
    by (simp add: onlyShortfalls_def initialRun_def)
  then have "onlyShortfalls ?r1" by (rule shortfalls_workingPass)
  then have s: "list_all isShortfall (warns ?r3)" by (simp add: onlyShortfalls_def)
  have g: "grid (generate rnd st dates) = grid ?r3"
    by (simp add: generate_def checkViolations_def)
  have w: "warns (generate rnd st dates) =
           warns ?r3 @ concat (map (checkEmployee st) (zip (allEmployees st) (grid ?r3)))"
    by (simp add: generate_def checkViolations_def)
  show ?thesis
    using runScheduler_generated [OF assms(2,1), of rnd] s
    by (simp add: g w checkEmployee_longest)
qed

theorem C7_overrun_warnings_witness:
  "\<exists>st' g shortfalls.
     runScheduler noNoise adminState = Generated st' \<and> schedule st' = Some g \<and>
     list_all isShortfall shortfalls \<and>
     warnings st' = shortfalls @
       concat (map (\<lambda>(emp, row).
                      if 2 < int (longestRun worked row)
                      then [ConsecutiveOverrun (name emp) (longestRun worked row) 2]
                      else [])
                   (zip (allEmployees adminState) g))"
proof -
  have ne: "allEmployees adminState \<noteq> []"
    by (simp add: allEmployees_def adminState_def exampleState_def)
  have m: "maxConsecutiveDays (constraints adminState) = 2"
    by (simp add: adminState_def)
  from C7_overrun_warnings [OF admin_period ne, of noNoise] show ?thesis
    unfolding m .
qed

lemma shiftStart_0: "shiftStart rnd st dates d 0 = dayStart rnd st dates d"
  by (simp add: shiftStart_def)

lemma shiftStart_Suc:
  "k < length (workingShifts st) \<Longrightarrow>
   shiftStart rnd st dates d (Suc k) =
     processShift rnd st d (isWeekend (dates ! d)) (shiftStart rnd st dates d k)
       (workingShifts st ! k)"
  by (simp add: shiftStart_def take_Suc_conv_app_nth)

lemma dayStart_Suc:
  "d < length dates \<Longrightarrow>
   dayStart rnd st dates (Suc d) =
     updateConsecutive d (shiftStart rnd st dates d (length (workingShifts st)))"
  by (simp add: dayStart_def shiftStart_def take_Suc_conv_app_nth scheduleDay_def)

lemma workingPass_dayStart:
  "workingPass rnd st dates (initialRun st dates) = dayStart rnd st dates (length dates)"
  by (simp add: workingPass_def dayStart_def)

subsection \<open>Assignment engine: one shift of one day\<close>

lemma assignLoop_take:
  "assignLoop c d required es assigned r =
     (assigned + min (length es) (nat (required - int assigned)),
      fold (assignWorking c d) (take (min (length es) (nat (required - int assigned))) es) r)"
proof (induction es arbitrary: assigned r)
  case Nil
  then show ?case by simp
next
  case (Cons e es)
  show ?case
  proof (cases "int assigned < required")
    case True
    then have "nat (required - int assigned) = Suc (nat (required - int (assigned + 1)))"
      by simp
    with True Cons.IH [of "assigned + 1" "assignWorking c d e r"] show ?thesis
      by simp
  next
    case False
    then show ?thesis by simp
  qed
qed

lemma length_grid_assignWorking [simp]: "length (grid (assignWorking c d e r)) = length (grid r)"
  by (simp add: assignWorking_def)

lemma length_row_assignWorking [simp]:
  "length (grid (assignWorking c d e r) ! e') = length (grid r ! e')"
  by (simp add: assignWorking_def length_write)

lemma grid_fold_assign:
  "grid (fold (assignWorking c d) es r) ! e ! d' =
     (if e \<in> set es \<and> e < length (grid r) \<and> d' = d \<and> d < length (grid r ! e) then Some c
      else grid r ! e ! d')"
proof (induction es arbitrary: r)
  case Nil
  then show ?case by simp
next
  case (Cons x es)
  show ?case
    by (auto simp add: Cons.IH grid_assignWorking nth_write length_write)
qed

lemma others_fold_assign [simp]:
  "consecutiveDays (fold (assignWorking c d) es r) = consecutiveDays r"
  "seed (fold (assignWorking c d) es r) = seed r"
  "warns (fold (assignWorking c d) es r) = warns r"
  "length (tally (fold (assignWorking c d) es r)) = length (tally r)"
  by (induction es arbitrary: r) (simp_all add: assignWorking_def)

lemma processShift_fold:
  "processShift rnd st d weekend r shift =
     (fold (assignWorking (code shift) d) (assignedTo rnd st weekend r shift d)
        (r\<lparr>seed := snd (arraySort (compareFairness rnd (tally r) shift)
                           (available st r shift d) (seed r))\<rparr>))
     \<lparr>warns := warns r @
        (if int (length (assignedTo rnd st weekend r shift d)) < requiredCount st weekend shift
         then [Understaffed (d + 1) (code shift) (length (assignedTo rnd st weekend r shift d))
                 (requiredCount st weekend shift)]
         else [])\<rparr>"
proof -
  define srt where
    "srt = arraySort (compareFairness rnd (tally r) shift) (available st r shift d) (seed r)"
  define req where "req = requiredCount st weekend shift"
  define k where "k = min (length (fst srt)) (nat req)"
  define r1 where "r1 = fold (assignWorking (code shift) d) (take k (fst srt)) (r\<lparr>seed := snd srt\<rparr>)"
  have ps: "processShift rnd st d weekend r shift =
      (if int k < req then r1\<lparr>warns := warns r1 @ [Understaffed (d + 1) (code shift) k req]\<rparr>
       else r1)"
    by (simp add: processShift_def Let_def case_prod_unfold assignLoop_take srt_def req_def
        k_def r1_def)
  have a: "assignedTo rnd st weekend r shift d = take k (fst srt)"
    by (simp add: assignedTo_def sortedAvailable_def srt_def req_def k_def min_def)
  have l: "length (assignedTo rnd st weekend r shift d) = k"
    by (simp add: assignedTo_def sortedAvailable_def srt_def req_def k_def min.commute)
  have w: "warns r1 = warns r" by (simp add: r1_def)
  show ?thesis
    unfolding ps a [symmetric] l
    by (cases "int k < req") (simp_all add: w r1_def a srt_def req_def)
qed


lemma set_assignedTo: "set (assignedTo rnd st weekend r shift d) \<subseteq> set (available st r shift d)"
  using set_take_subset [of "nat (requiredCount st weekend shift)" "sortedAvailable rnd st r shift d"]
  by (simp add: assignedTo_def sortedAvailable_def set_arraySort)

lemma distinct_assignedTo: "distinct (assignedTo rnd st weekend r shift d)"
  by (simp add: assignedTo_def sortedAvailable_def distinct_arraySort distinct_available)

lemma cell_processShift:
  "grid (processShift rnd st d weekend r shift) ! e ! d' =
     (if e \<in> set (assignedTo rnd st weekend r shift d) \<and> e < length (grid r) \<and> d' = d \<and>
         d < length (grid r ! e)
      then Some (code shift) else grid r ! e ! d')"
  by (simp add: processShift_fold grid_fold_assign)

lemma others_processShift [simp]:
  "consecutiveDays (processShift rnd st d weekend r shift) = consecutiveDays r"
  "length (tally (processShift rnd st d weekend r shift)) = length (tally r)"
  by (simp_all add: processShift_fold)

subsection \<open>The states that a run passes through\<close>

lemma length_prefill_row:
  "e < length emps \<Longrightarrow> length (prefill dates emps ! e) = length dates"
  by (simp add: prefill_def length_prefillRow)

lemma reach_shape:
  assumes "reachInv st dates d r"
  shows "length (grid r) = length (allEmployees st)"
    and "e < length (allEmployees st) \<Longrightarrow> length (grid r ! e) = length dates"
proof -
  from assms have k: "keeps (prefill dates (allEmployees st)) (grid r)"
    by (simp add: reachInv_def)
  then show "length (grid r) = length (allEmployees st)"
    by (simp add: keeps_def prefill_def)
  assume "e < length (allEmployees st)"
  with k show "length (grid r ! e) = length dates"
    by (simp add: keeps_def prefill_def length_prefillRow)
qed

lemma reachInv_initial: "reachInv st dates 0 (initialRun st dates)"
  by (simp add: reachInv_def initialRun_def keeps_refl trailingRun_def)

lemma reachInv_processShift:
  assumes "reachInv st dates d r"
  shows "reachInv st dates d (processShift rnd st d weekend r shift)"
proof -
  let ?r = "processShift rnd st d weekend r shift"
  have k: "keeps (prefill dates (allEmployees st)) (grid ?r)"
    using assms keeps_processShift [of r rnd st d weekend shift]
    by (auto simp add: reachInv_def intro: keeps_trans)
  have "take d (grid ?r ! e) = take d (grid r ! e)" if "e < length (allEmployees st)" for e
  proof (rule nth_equalityI)
    have "length (grid ?r ! e) = length (grid r ! e)"
      using keeps_processShift [of r rnd st d weekend shift] reach_shape(1) [OF assms] that
      by (simp add: keeps_def)
    then show "length (take d (grid ?r ! e)) = length (take d (grid r ! e))" by simp
  next
    fix i assume "i < length (take d (grid ?r ! e))"
    then show "take d (grid ?r ! e) ! i = take d (grid r ! e) ! i"
      by (simp add: cell_processShift)
  qed
  with assms k show ?thesis by (simp add: reachInv_def)
qed

lemma trailingRun_snoc:
  "trailingRun (cs @ [c]) = (if worked c then trailingRun cs + 1 else 0)"
  by (simp add: trailingRun_def)

lemma reachInv_updateConsecutive:
  assumes "reachInv st dates d r" and "d < length dates"
  shows "reachInv st dates (Suc d) (updateConsecutive d r)"
proof -
  have "trailingRun (take (Suc d) (grid r ! e)) =
        (if worked (grid r ! e ! d) then trailingRun (take d (grid r ! e)) + 1 else 0)"
    if "e < length (allEmployees st)" for e
    using reach_shape(2) [OF assms(1) that] assms(2)
    by (simp add: take_Suc_conv_app_nth trailingRun_snoc)
  with assms(1) show ?thesis
    by (simp add: reachInv_def updateConsecutive_def)
qed

lemma reach_states:
  "d \<le> length dates \<Longrightarrow> reachInv st dates d (dayStart rnd st dates d)"
  "d < length dates \<Longrightarrow> k \<le> length (workingShifts st) \<Longrightarrow>
   reachInv st dates d (shiftStart rnd st dates d k)"
proof -
  have shifts: "reachInv st dates d (shiftStart rnd st dates d k)"
    if "reachInv st dates d (dayStart rnd st dates d)" "k \<le> length (workingShifts st)" for d k
    using that
  proof (induction k)
    case 0
    then show ?case by (simp add: shiftStart_0)
  next
    case (Suc k)
    then show ?case by (simp add: shiftStart_Suc reachInv_processShift)
  qed
  have days: "reachInv st dates d (dayStart rnd st dates d)" if "d \<le> length dates" for d
    using that
  proof (induction d)
    case 0
    then show ?case by (simp add: dayStart_def reachInv_initial)
  next
    case (Suc d)
    then have "reachInv st dates d (shiftStart rnd st dates d (length (workingShifts st)))"
      by (intro shifts) simp_all
    with Suc.prems show ?case
      by (simp add: dayStart_Suc reachInv_updateConsecutive)
  qed
  show "d \<le> length dates \<Longrightarrow> reachInv st dates d (dayStart rnd st dates d)"
    by (rule days)
  show "d < length dates \<Longrightarrow> k \<le> length (workingShifts st) \<Longrightarrow>
        reachInv st dates d (shiftStart rnd st dates d k)"
    by (rule shifts) (simp_all add: days)
qed

lemma length_filter_member:
  assumes "distinct xs" and "set xs \<subseteq> {0..<n}"
  shows "length (filter (\<lambda>e. e \<in> set xs) [0..<n]) = length xs"
proof -
  have "length (filter (\<lambda>e. e \<in> set xs) [0..<n]) = card ({e. e \<in> set xs} \<inter> set [0..<n])"
    by (rule distinct_length_filter) simp
  also have "{e. e \<in> set xs} \<inter> set [0..<n] = set xs" using assms(2) by auto
  also have "card (set xs) = length xs" using assms(1) by (rule distinct_card)
  finally show ?thesis .
qed

text \<open>The employees whose cell of the day the step has written.\<close>

lemma written_cells:
  assumes "reachInv st dates d r" and "d < length dates"
    and "e < length (allEmployees st)"
  shows "(grid (processShift rnd st d weekend r shift) ! e ! d \<noteq> grid r ! e ! d) =
         (e \<in> set (assignedTo rnd st weekend r shift d))"
proof (cases "e \<in> set (assignedTo rnd st weekend r shift d)")
  case True
  then have "grid r ! e ! d = None"
    using set_assignedTo [of rnd st weekend r shift d] by (auto dest: available_unassigned)
  with True assms show ?thesis
    by (simp add: cell_processShift reach_shape [OF assms(1)])
next
  case False
  then show ?thesis by (simp add: cell_processShift)
qed

lemma assigned_count:
  assumes "reachInv st dates d r" and "d < length dates"
  shows "length (filter (\<lambda>e. grid (processShift rnd st d weekend r shift) ! e ! d \<noteq> grid r ! e ! d)
           [0..<length (allEmployees st)]) =
         length (assignedTo rnd st weekend r shift d)"
proof -
  have "filter (\<lambda>e. grid (processShift rnd st d weekend r shift) ! e ! d \<noteq> grid r ! e ! d)
          [0..<length (allEmployees st)] =
        filter (\<lambda>e. e \<in> set (assignedTo rnd st weekend r shift d)) [0..<length (allEmployees st)]"
    by (rule filter_cong) (simp_all add: written_cells [OF assms])
  moreover have "x < length (allEmployees st)"
    if "x \<in> set (assignedTo rnd st weekend r shift d)" for x
    using that set_assignedTo [of rnd st weekend r shift d] available_bound [of x st r shift d]
    by blast
  then have "set (assignedTo rnd st weekend r shift d) \<subseteq> {0..<length (allEmployees st)}"
    by auto
  ultimately show ?thesis
    by (simp add: length_filter_member distinct_assignedTo)
qed

text \<open>
  C5: on day \<open>d\<close>, processing the working shift at position \<open>k\<close> appends exactly one
  shortfall warning when the number of employees it assigned, the cells of the day that
  it wrote, is less than the required count, and appends nothing otherwise. The required
  count is the configured coverage, or 0 on a weekend under the preset 8x5; the warning
  holds the day number \<open>d + 1\<close>, the code of the shift, the number assigned and the
  required count.
\<close>

theorem C5_shortfall_warning:
  assumes "d < length dates" and "k < length (workingShifts st)"
  shows "let r = shiftStart rnd st dates d k;
             r' = shiftStart rnd st dates d (Suc k);
             shift = workingShifts st ! k;
             configured = (case coverage shift of Some c \<Rightarrow> c
                           | None \<Rightarrow> getCoverageDefault st (code shift));
             required = (if coveragePreset st = ''8x5'' \<and> isWeekend (dates ! d) then 0
                         else configured);
             assigned = length (filter (\<lambda>e. grid r' ! e ! d \<noteq> grid r ! e ! d)
                                  [0..<length (allEmployees st)])
         in warns r' = warns r @
              (if int assigned < required
               then [Understaffed (d + 1) (code shift) assigned required] else [])"
proof -
  let ?r = "shiftStart rnd st dates d k"
  let ?shift = "workingShifts st ! k"
  let ?we = "isWeekend (dates ! d)"
  have inv: "reachInv st dates d ?r"
    using assms by (intro reach_states) simp_all
  have req: "requiredCount st ?we ?shift =
      (if coveragePreset st = ''8x5'' \<and> ?we then 0
       else (case coverage ?shift of Some c \<Rightarrow> c | None \<Rightarrow> getCoverageDefault st (code ?shift)))"
    by (simp add: requiredCount_def Let_def)
  have "warns (processShift rnd st d ?we ?r ?shift) = warns ?r @
      (if int (length (assignedTo rnd st ?we ?r ?shift d)) < requiredCount st ?we ?shift
       then [Understaffed (d + 1) (code ?shift) (length (assignedTo rnd st ?we ?r ?shift d))
               (requiredCount st ?we ?shift)]
       else [])"
    by (simp add: processShift_fold)
  then show ?thesis
    unfolding Let_def shiftStart_Suc [OF assms(2)] assigned_count [OF inv assms(1)] req .
qed

lemma leave_shifts:
  "workingShifts (exampleState\<lparr>groups := leaveGroups\<rparr>) =
     [\<lparr>code = ''D'', stype = working, coverage = Some 1\<rparr>]"
  by (simp add: workingShifts_def exampleState_def)

lemma leave_day1_before:
  "shiftStart noNoise (exampleState\<lparr>groups := leaveGroups\<rparr>) examplePeriod (Suc 0) 0 =
     \<lparr>grid = [[Some ''D'', Some ''LEAVE'', None]],
      tally = [\<lparr>totalAssigned = 1, nightAssigned = 0\<rparr>],
      consecutiveDays = [1], seed = 7, warns = []\<rparr>"
  unfolding shiftStart_def dayStart_def initial_leave by code_simp

lemma leave_day1_after:
  "shiftStart noNoise (exampleState\<lparr>groups := leaveGroups\<rparr>) examplePeriod (Suc 0) (Suc 0) =
     \<lparr>grid = [[Some ''D'', Some ''LEAVE'', None]],
      tally = [\<lparr>totalAssigned = 1, nightAssigned = 0\<rparr>],
      consecutiveDays = [1], seed = 7, warns = [Understaffed 2 ''D'' 0 1]\<rparr>"
  unfolding shiftStart_def dayStart_def initial_leave by code_simp

theorem C5_shortfall_warning_witness:
  "warns (shiftStart noNoise (exampleState\<lparr>groups := leaveGroups\<rparr>) examplePeriod
            (Suc 0) (Suc 0)) =
   warns (shiftStart noNoise (exampleState\<lparr>groups := leaveGroups\<rparr>) examplePeriod (Suc 0) 0) @
     [Understaffed 2 ''D'' 0 1]"
proof -
  have d: "Suc 0 < length examplePeriod" by (simp add: examplePeriod_def)
  have k: "0 < length (workingShifts (exampleState\<lparr>groups := leaveGroups\<rparr>))"
    by (simp add: leave_shifts)
  have e: "length (allEmployees (exampleState\<lparr>groups := leaveGroups\<rparr>)) = Suc 0"
    by (simp add: allEmployees_def leaveGroups_def)
  have p: "coveragePreset (exampleState\<lparr>groups := leaveGroups\<rparr>) = ''custom''"
    by (simp add: exampleState_def)
  from C5_shortfall_warning [OF d k, of noNoise] show ?thesis
    by (simp add: leave_shifts leave_day1_before leave_day1_after Let_def e p)
qed

subsection \<open>Assignment engine: candidates\<close>

lemma restBlocked_iff:
  "restBlocked ss g shift e d =
     (0 < d \<and> g ! e ! (d - 1) = Some ''N'' \<and> category ss ''N'' = Some working \<and>
      code shift = ''D'')"
proof (cases "g ! e ! (d - 1)")
  case None
  then show ?thesis by (simp add: restBlocked_def truthy_def)
next
  case (Some c)
  have eq: "(\<lambda>s. Some (code s) = Some c) = (\<lambda>s. code s = c)" by auto
  show ?thesis
  proof (cases "find (\<lambda>s. code s = c) ss")
    case None
    with Some show ?thesis
      by (auto simp add: restBlocked_def truthy_def category_def eq)
  next
    case (Some prev)
    then have "code prev = c" by (auto simp add: find_Some_iff)
    with Some \<open>g ! e ! (d - 1) = Some c\<close> show ?thesis
      by (auto simp add: restBlocked_def truthy_def category_def eq)
  qed
qed

lemma isAvailable_iff:
  "isAvailable st r shift d e =
     (grid r ! e ! d = None \<and> shouldWorkOnDay st e d \<and>
      \<not> restBlocked (shifts st) (grid r) shift e d \<and>
      int (consecutiveDays r ! e) < maxConsecutiveDays (constraints st))"
  by (auto simp add: isAvailable_def)

lemma cellsOk_initial:
  assumes "catalogueOk st"
  shows "cellsOk st (grid (initialRun st dates))"
proof -
  have "c = None \<or> c = Some ''LEAVE'' \<or> c = Some ''TAD''"
    if "e < length (allEmployees st)" "c \<in> set (prefillRow ds (allEmployees st ! e))" for e c ds
  proof -
    from prefillRow_cells that(2)
    consider "c = None"
      | u where "u \<in> set (unavailability (allEmployees st ! e))" "c = Some (utype u)"
      by blast
    then show ?thesis
    proof cases
      case 1
      then show ?thesis by simp
    next
      case 2
      moreover have "allEmployees st ! e \<in> set (allEmployees st)" using that(1) by simp
      ultimately show ?thesis
        using assms by (auto simp add: catalogueOk_def list_all_iff)
    qed
  qed
  then have "prefillRow ds (allEmployees st ! e) ! d = None \<or>
      prefillRow ds (allEmployees st ! e) ! d = Some ''LEAVE'' \<or>
      prefillRow ds (allEmployees st ! e) ! d = Some ''TAD''"
    if "e < length (allEmployees st)" "d < length (prefillRow ds (allEmployees st ! e))"
    for e d ds
    using that nth_mem [OF that(2)] by blast
  then show ?thesis
    unfolding cellsOk_def initialRun_def prefill_def by (simp, blast)
qed

lemma cellsOk_processShift:
  assumes "cellsOk st (grid r)" and "shift \<in> set (workingShifts st)"
  shows "cellsOk st (grid (processShift rnd st d weekend r shift))"
proof -
  have k: "keeps (grid r) (grid (processShift rnd st d weekend r shift))"
    by (rule keeps_processShift)
  show ?thesis
    unfolding cellsOk_def
  proof (intro allI impI)
    fix e d'
    assume e: "e < length (grid (processShift rnd st d weekend r shift))"
      and d': "d' < length (grid (processShift rnd st d weekend r shift) ! e)"
    from k e have e': "e < length (grid r)" by (simp add: keeps_def)
    with k d' have "d' < length (grid r ! e)" by (simp add: keeps_def)
    with assms(1) e' have old: "grid r ! e ! d' = None \<or> grid r ! e ! d' = Some ''LEAVE'' \<or>
        grid r ! e ! d' = Some ''TAD'' \<or>
        (\<exists>s \<in> set (workingShifts st). grid r ! e ! d' = Some (code s))"
      by (simp add: cellsOk_def)
    show "grid (processShift rnd st d weekend r shift) ! e ! d' = None \<or>
        grid (processShift rnd st d weekend r shift) ! e ! d' = Some ''LEAVE'' \<or>
        grid (processShift rnd st d weekend r shift) ! e ! d' = Some ''TAD'' \<or>
        (\<exists>s \<in> set (workingShifts st).
           grid (processShift rnd st d weekend r shift) ! e ! d' = Some (code s))"
      using old assms(2) unfolding cell_processShift by auto
  qed
qed

lemma cellsOk_states:
  assumes "catalogueOk st"
  shows "d \<le> length dates \<Longrightarrow> cellsOk st (grid (dayStart rnd st dates d))"
    and "d < length dates \<Longrightarrow> k \<le> length (workingShifts st) \<Longrightarrow>
         cellsOk st (grid (shiftStart rnd st dates d k))"
proof -
  have shifts: "cellsOk st (grid (shiftStart rnd st dates d k))"
    if "cellsOk st (grid (dayStart rnd st dates d))" "k \<le> length (workingShifts st)" for d k
    using that
  proof (induction k)
    case 0
    then show ?case by (simp add: shiftStart_0)
  next
    case (Suc k)
    then show ?case by (simp add: shiftStart_Suc cellsOk_processShift)
  qed
  have days: "cellsOk st (grid (dayStart rnd st dates d))" if "d \<le> length dates" for d
    using that
  proof (induction d)
    case 0
    then show ?case by (simp add: dayStart_def cellsOk_initial [OF assms])
  next
    case (Suc d)
    then have "cellsOk st (grid (shiftStart rnd st dates d (length (workingShifts st))))"
      by (intro shifts) simp_all
    with Suc.prems show ?case
      by (simp add: dayStart_Suc updateConsecutive_def)
  qed
  show "d \<le> length dates \<Longrightarrow> cellsOk st (grid (dayStart rnd st dates d))"
    by (rule days)
  show "d < length dates \<Longrightarrow> k \<le> length (workingShifts st) \<Longrightarrow>
        cellsOk st (grid (shiftStart rnd st dates d k))"
    by (rule shifts) (simp_all add: days)
qed

lemma worked_holdsWorking:
  assumes "codesOk st"
    and "c = None \<or> c = Some ''LEAVE'' \<or> c = Some ''TAD'' \<or>
         (\<exists>s \<in> set (workingShifts st). c = Some (code s))"
  shows "worked c = holdsWorking (shifts st) c"
proof -
  have ok: "catalogueOk st" and ne: "[] \<notin> set (map code (shifts st))"
    using assms(1) by (simp_all add: codesOk_def)
  from assms(2) consider "c = None" | "c = Some ''LEAVE''" | "c = Some ''TAD''"
    | s where "s \<in> set (workingShifts st)" "c = Some (code s)"
    by blast
  then show ?thesis
  proof cases
    case 1
    then show ?thesis by (simp add: worked_def truthy_def holdsWorking_def)
  next
    case 2
    then show ?thesis
      using ok by (simp add: worked_def holdsWorking_def catalogueOk_def category_absent)
  next
    case 3
    then show ?thesis
      using ok by (simp add: worked_def holdsWorking_def catalogueOk_def category_absent)
  next
    case 4
    then have "s \<in> set (shifts st)" by (simp add: workingShifts_def)
    then have m: "code s \<in> set (map code (shifts st))" by simp
    have "[] \<notin> set (map code (shifts st))" "''LEAVE'' \<notin> set (map code (shifts st))"
      "''TAD'' \<notin> set (map code (shifts st))"
      using ok ne by (simp_all add: catalogueOk_def)
    with m have "code s \<noteq> []" "code s \<noteq> ''LEAVE''" "code s \<noteq> ''TAD''"
      by metis+
    with 4 working_code [OF ok 4(1)] show ?thesis
      by (simp add: worked_def truthy_def holdsWorking_def)
  qed
qed

lemma trailing_working:
  assumes "codesOk st" and "cellsOk st g" and "e < length g"
  shows "trailingRun (take d (g ! e)) = workingRun (shifts st) (take d (g ! e))"
proof -
  have "worked c = holdsWorking (shifts st) c" if "c \<in> set (rev (take d (g ! e)))" for c
  proof -
    from that have "c \<in> set (g ! e)" by (auto dest: in_set_takeD)
    then obtain i where "i < length (g ! e)" "c = g ! e ! i"
      by (auto simp add: in_set_conv_nth)
    with assms(2,3) show ?thesis
      by (intro worked_holdsWorking [OF assms(1)]) (simp add: cellsOk_def)
  qed
  then have "takeWhile worked (rev (take d (g ! e))) =
             takeWhile (holdsWorking (shifts st)) (rev (take d (g ! e)))"
    by (intro takeWhile_cong) simp_all
  then show ?thesis by (simp add: trailingRun_def workingRun_def)
qed

text \<open>
  C3, amended: for every day \<open>d\<close> and every working shift processed on that day, the
  candidates are exactly the employees whose cell of day \<open>d\<close> is null, who are on-cycle,
  who enter day \<open>d\<close> with fewer than \<open>maxConsecutiveDays\<close> consecutive worked days, and
  who are not blocked by the adjacency rule: the shift is D and the cell of day \<open>d - 1\<close>
  holds the working code N. A worked day is a day whose cell holds a value that is not
  empty and is neither LEAVE nor TAD; when the codes of the catalogue are distinct, not
  empty and differ from LEAVE and TAD, the worked days before day \<open>d\<close> are the days with a
  working code.
\<close>

theorem C3_candidates:
  assumes "d < length dates" and "k < length (workingShifts st)"
  shows "let r = shiftStart rnd st dates d k; shift = workingShifts st ! k
         in set (available st r shift d) =
              {e. e < length (allEmployees st) \<and> grid r ! e ! d = None \<and>
                  shouldWorkOnDay st e d \<and>
                  int (trailingRun (take d (grid r ! e))) < maxConsecutiveDays (constraints st) \<and>
                  \<not> (0 < d \<and> grid r ! e ! (d - 1) = Some ''N'' \<and>
                     category (shifts st) ''N'' = Some working \<and> code shift = ''D'')} \<and>
            (codesOk st \<longrightarrow>
               (\<forall>e < length (allEmployees st).
                  trailingRun (take d (grid r ! e)) =
                    workingRun (shifts st) (take d (grid r ! e))))"
proof -
  let ?r = "shiftStart rnd st dates d k"
  have inv: "reachInv st dates d ?r"
    using assms by (intro reach_states) simp_all
  have runs: "trailingRun (take d (grid ?r ! e)) = workingRun (shifts st) (take d (grid ?r ! e))"
    if "codesOk st" "e < length (allEmployees st)" for e
  proof (rule trailing_working [OF that(1)])
    show "cellsOk st (grid ?r)"
      using that(1) assms by (intro cellsOk_states) (simp_all add: codesOk_def)
    show "e < length (grid ?r)"
      using that(2) reach_shape(1) [OF inv] by simp
  qed
  from inv have c: "consecutiveDays ?r ! e = trailingRun (take d (grid ?r ! e))"
    if "e < length (allEmployees st)" for e
    using that by (simp add: reachInv_def)
  have av: "isAvailable st ?r (workingShifts st ! k) d e =
      (grid ?r ! e ! d = None \<and> shouldWorkOnDay st e d \<and>
       int (trailingRun (take d (grid ?r ! e))) < maxConsecutiveDays (constraints st) \<and>
       \<not> (0 < d \<and> grid ?r ! e ! (d - 1) = Some ''N'' \<and>
          category (shifts st) ''N'' = Some working \<and> code (workingShifts st ! k) = ''D''))"
    if "e < length (allEmployees st)" for e
    unfolding isAvailable_iff restBlocked_iff c [OF that] by blast
  have "set (filter (isAvailable st ?r (workingShifts st ! k) d)
                [0..<length (allEmployees st)]) =
        {e. e < length (allEmployees st) \<and> grid ?r ! e ! d = None \<and>
            shouldWorkOnDay st e d \<and>
            int (trailingRun (take d (grid ?r ! e))) < maxConsecutiveDays (constraints st) \<and>
            \<not> (0 < d \<and> grid ?r ! e ! (d - 1) = Some ''N'' \<and>
               category (shifts st) ''N'' = Some working \<and>
               code (workingShifts st ! k) = ''D'')}"
  proof (intro set_eqI)
    fix e
    show "(e \<in> set (filter (isAvailable st ?r (workingShifts st ! k) d)
                     [0..<length (allEmployees st)])) =
          (e \<in> {e. e < length (allEmployees st) \<and> grid ?r ! e ! d = None \<and>
                  shouldWorkOnDay st e d \<and>
                  int (trailingRun (take d (grid ?r ! e))) < maxConsecutiveDays (constraints st) \<and>
                  \<not> (0 < d \<and> grid ?r ! e ! (d - 1) = Some ''N'' \<and>
                     category (shifts st) ''N'' = Some working \<and>
                     code (workingShifts st ! k) = ''D'')})"
    proof (cases "e < length (allEmployees st)")
      case True
      then show ?thesis unfolding mem_Collect_eq set_filter av [OF True] by simp
    next
      case False
      then show ?thesis by simp
    qed
  qed
  with runs show ?thesis
    unfolding Let_def available_def by blast
qed

lemma initial_cap:
  "initialRun capState examplePeriod =
     \<lparr>grid = [[None, None, None]],
      tally = [\<lparr>totalAssigned = 0, nightAssigned = 0\<rparr>],
      consecutiveDays = [0], seed = 7, warns = []\<rparr>"
  by (simp add: initialRun_def prefill_def prefillRow_def allEmployees_def capState_def
      exampleState_def examplePeriod_def)

lemma cap_day2:
  "shiftStart noNoise capState examplePeriod (Suc (Suc 0)) 0 =
     \<lparr>grid = [[Some ''D'', Some ''D'', None]],
      tally = [\<lparr>totalAssigned = 2, nightAssigned = 0\<rparr>],
      consecutiveDays = [2], seed = 7, warns = []\<rparr>"
  unfolding shiftStart_def dayStart_def initial_cap by code_simp

lemma cap_shifts: "workingShifts capState = [\<lparr>code = ''D'', stype = working, coverage = Some 1\<rparr>]"
  by (simp add: workingShifts_def capState_def exampleState_def)

text \<open>
  C3, as stated, fails for an employee who has reached the limit without exceeding it.
  With a limit of 2 the employee has worked days 0 and 1; on day 2 the cell is null, the
  employee is on-cycle, has not exceeded 2 consecutive days and no rest rule applies, and
  is not a candidate.
\<close>

theorem C3_cap_reached_counterexample:
  "claimedCandidate capState (shiftStart noNoise capState examplePeriod (Suc (Suc 0)) 0)
     (workingShifts capState ! 0) (Suc (Suc 0)) 0 \<and>
   0 \<notin> set (available capState (shiftStart noNoise capState examplePeriod (Suc (Suc 0)) 0)
              (workingShifts capState ! 0) (Suc (Suc 0)))"
  unfolding cap_day2 cap_shifts by code_simp

theorem C3_candidates_witness:
  "available capState (shiftStart noNoise capState examplePeriod (Suc (Suc 0)) 0)
     (workingShifts capState ! 0) (Suc (Suc 0)) = [] \<and>
   workingRun (shifts capState) [Some ''D'', Some ''D''] = 2"
proof -
  let ?r = "shiftStart noNoise capState examplePeriod (Suc (Suc 0)) 0"
  let ?av = "available capState ?r (workingShifts capState ! 0) (Suc (Suc 0))"
  have d: "Suc (Suc 0) < length examplePeriod" by (simp add: examplePeriod_def)
  have k: "0 < length (workingShifts capState)" by (simp add: cap_shifts)
  have t: "trailingRun [Some ''D'', Some ''D''] = 2"
    by (simp add: trailingRun_def worked_def truthy_def)
  have m: "maxConsecutiveDays (constraints capState) = 2" by (simp add: capState_def)
  have n: "length (allEmployees capState) = Suc 0"
    by (simp add: allEmployees_def capState_def exampleState_def)
  have ok: "codesOk capState"
    by (simp add: codesOk_def catalogueOk_def allEmployees_def capState_def exampleState_def)
  have both: "set ?av =
      {e. e < length (allEmployees capState) \<and> grid ?r ! e ! Suc (Suc 0) = None \<and>
        shouldWorkOnDay capState e (Suc (Suc 0)) \<and>
        int (trailingRun (take (Suc (Suc 0)) (grid ?r ! e)))
          < maxConsecutiveDays (constraints capState) \<and>
        \<not> (0 < Suc (Suc 0) \<and> grid ?r ! e ! (Suc (Suc 0) - 1) = Some ''N'' \<and>
           category (shifts capState) ''N'' = Some working \<and>
           code (workingShifts capState ! 0) = ''D'')} \<and>
      (codesOk capState \<longrightarrow>
         (\<forall>e < length (allEmployees capState).
            trailingRun (take (Suc (Suc 0)) (grid ?r ! e)) =
              workingRun (shifts capState) (take (Suc (Suc 0)) (grid ?r ! e))))"
    using C3_candidates [OF d k, of noNoise] unfolding Let_def .
  have "e \<notin> set ?av" for e
  proof
    assume "e \<in> set ?av"
    with both have a: "e < length (allEmployees capState)"
      and b: "int (trailingRun (take (Suc (Suc 0)) (grid ?r ! e)))
          < maxConsecutiveDays (constraints capState)"
      by blast+
    from a have "e = 0" by (simp add: n)
    with b show False by (simp add: cap_day2 m t)
  qed
  then have "?av = []" by (cases ?av) auto
  moreover from both ok
  have "trailingRun (take (Suc (Suc 0)) (grid ?r ! 0)) =
        workingRun (shifts capState) (take (Suc (Suc 0)) (grid ?r ! 0))"
    by (simp add: n)
  then have "workingRun (shifts capState) [Some ''D'', Some ''D''] = 2"
    by (simp add: cap_day2 t)
  ultimately show ?thesis by simp
qed

subsection \<open>Assignment engine: fairness order\<close>

lemma length_extendRun: "fst (extendRun comparefn desc prev rest s) \<le> length rest"
proof (induction rest arbitrary: prev s)
  case Nil
  then show ?case by simp
next
  case (Cons cur rest)
  obtain order s' where c: "comparefn cur prev s = (order, s')" by (cases "comparefn cur prev s")
  with Cons [of cur s'] show ?case
    by (cases "extendRun comparefn desc cur rest s'") auto
qed

lemma ascending_extendRun:
  assumes nonneg: "\<And>a b s. \<not> fst (comparefn a b s) < 0 \<Longrightarrow> f b \<le> (f a :: nat)"
  shows "sorted (map f (prev # take (fst (extendRun comparefn False prev rest s)) rest))"
proof (induction rest arbitrary: prev s)
  case Nil
  then show ?case by simp
next
  case (Cons cur rest)
  obtain order s' where c: "comparefn cur prev s = (order, s')" by (cases "comparefn cur prev s")
  show ?case
  proof (cases "order < 0")
    case True
    with c show ?thesis by simp
  next
    case False
    then have "f prev \<le> f cur" using nonneg [of cur prev s] c by simp
    with Cons [of cur s'] c False show ?thesis
      by (cases "extendRun comparefn False cur rest s'") auto
  qed
qed

lemma descending_extendRun:
  assumes neg: "\<And>a b s. fst (comparefn a b s) < 0 \<Longrightarrow> f a \<le> (f b :: nat)"
  shows "sorted (rev (map f (prev # take (fst (extendRun comparefn True prev rest s)) rest)))"
proof (induction rest arbitrary: prev s)
  case Nil
  then show ?case by simp
next
  case (Cons cur rest)
  obtain order s' where c: "comparefn cur prev s = (order, s')" by (cases "comparefn cur prev s")
  show ?case
  proof (cases "0 \<le> order")
    case True
    with c show ?thesis by simp
  next
    case False
    then have le: "f cur \<le> f prev" using neg [of cur prev s] c by simp
    obtain n s'' where e: "extendRun comparefn True cur rest s' = (n, s'')"
      by (cases "extendRun comparefn True cur rest s'")
    from Cons [of cur s'] e have "sorted (rev (map f (cur # take n rest)))" by simp
    with le have "sorted (rev (map f (prev # cur # take n rest)))"
      by (auto simp add: sorted_append intro: order_trans)
    with c False e show ?thesis by simp
  qed
qed

lemma sorted_countAndMakeRun:
  assumes neg: "\<And>a b s. fst (comparefn a b s) < 0 \<Longrightarrow> f a \<le> (f b :: nat)"
    and nonneg: "\<And>a b s. \<not> fst (comparefn a b s) < 0 \<Longrightarrow> f b \<le> f a"
    and c: "countAndMakeRun comparefn xs s = ((ys, runLength), s')"
  shows "sorted (map f (take runLength ys))"
proof (cases xs)
  case Nil
  with c show ?thesis by (simp add: countAndMakeRun_def)
next
  case (Cons hi tl)
  show ?thesis
  proof (cases tl)
    case Nil
    with Cons c show ?thesis by (auto simp add: countAndMakeRun_def)
  next
    case (Cons lo rest)
    obtain order s1 where o: "comparefn lo hi s = (order, s1)" by (cases "comparefn lo hi s")
    obtain n s2 where e: "extendRun comparefn (order < 0) lo rest s1 = (n, s2)"
      by (cases "extendRun comparefn (order < 0) lo rest s1")
    have n: "n \<le> length rest" using length_extendRun [of comparefn "order < 0" lo rest s1] e by simp
    have xs: "xs = hi # lo # rest" using \<open>xs = hi # tl\<close> Cons by simp
    show ?thesis
    proof (cases "order < 0")
      case True
      then have "f lo \<le> f hi" using neg [of lo hi s] o by simp
      moreover have "sorted (rev (map f (lo # take n rest)))"
        using descending_extendRun [of comparefn f lo rest s1, OF neg] e True by simp
      ultimately have "sorted (rev (map f (hi # lo # take n rest)))"
        by (auto simp add: sorted_append intro: order_trans)
      moreover have "ys = rev (hi # lo # take n rest) @ drop n rest" "runLength = 2 + n"
        using c xs o e True by (simp_all add: countAndMakeRun_def Let_def)
      ultimately show ?thesis using n by (simp add: rev_map)
    next
      case False
      then have "f hi \<le> f lo" using nonneg [of lo hi s] o by simp
      moreover have "sorted (map f (lo # take n rest))"
        using ascending_extendRun [of comparefn f lo rest s1, OF nonneg] e False by simp
      ultimately have "sorted (map f (hi # lo # take n rest))" by auto
      moreover have "ys = xs" "runLength = 2 + n"
        using c xs o e False by (simp_all add: countAndMakeRun_def Let_def)
      ultimately show ?thesis using xs by simp
    qed
  qed
qed

lemma findInsertionPoint_bounds:
  "(\<And>a b s. fst (comparefn a b s) < 0 \<Longrightarrow> f a \<le> (f b :: nat)) \<Longrightarrow>
   (\<And>a b s. \<not> fst (comparefn a b s) < 0 \<Longrightarrow> f b \<le> f a) \<Longrightarrow>
   sorted (map f xs) \<Longrightarrow> left \<le> right \<Longrightarrow> right \<le> length xs \<Longrightarrow>
   \<forall>i < left. f (xs ! i) \<le> f pivot \<Longrightarrow>
   \<forall>i. right \<le> i \<and> i < length xs \<longrightarrow> f pivot \<le> f (xs ! i) \<Longrightarrow>
   (let l = fst (findInsertionPoint comparefn pivot xs left right s)
    in l \<le> length xs \<and> (\<forall>i < l. f (xs ! i) \<le> f pivot) \<and>
       (\<forall>i. l \<le> i \<and> i < length xs \<longrightarrow> f pivot \<le> f (xs ! i)))"
proof (induction comparefn pivot xs left right s rule: findInsertionPoint.induct)
  case (1 comparefn pivot xs left right s)
  note neg = "1.prems"(1) and nonneg = "1.prems"(2) and srt = "1.prems"(3)
  show ?case
  proof (cases "left < right")
    case False
    with "1.prems"(4-7) show ?thesis by (subst findInsertionPoint.simps) simp
  next
    case True
    define mid where "mid = left + (right - left) div 2"
    have m: "left \<le> mid" "mid < right" using True by (simp_all add: mid_def)
    obtain order s' where c: "comparefn pivot (xs ! mid) s = (order, s')"
      by (cases "comparefn pivot (xs ! mid) s")
    have mono: "f (xs ! i) \<le> f (xs ! j)" if "i \<le> j" "j < length xs" for i j
      using srt that by (simp add: sorted_iff_nth_mono)
    have unfold: "findInsertionPoint comparefn pivot xs left right s =
        (if order < 0 then findInsertionPoint comparefn pivot xs left mid s'
         else findInsertionPoint comparefn pivot xs (mid + 1) right s')"
      using True c by (subst findInsertionPoint.simps) (simp add: mid_def [symmetric])
    show ?thesis
    proof (cases "order < 0")
      case neg_order: True
      then have pm: "f pivot \<le> f (xs ! mid)" using neg [of pivot "xs ! mid" s] c by simp
      have upper: "\<forall>i. mid \<le> i \<and> i < length xs \<longrightarrow> f pivot \<le> f (xs ! i)"
        using pm mono by (meson order_trans)
      have "let l = fst (findInsertionPoint comparefn pivot xs left mid s')
            in l \<le> length xs \<and> (\<forall>i < l. f (xs ! i) \<le> f pivot) \<and>
               (\<forall>i. l \<le> i \<and> i < length xs \<longrightarrow> f pivot \<le> f (xs ! i))"
      proof (rule "1.IH"(1) [OF True mid_def c [symmetric] neg_order])
        show "left \<le> mid" by (rule m)
        show "mid \<le> length xs" using m "1.prems"(5) by simp
        show "\<forall>i < left. f (xs ! i) \<le> f pivot" by (rule "1.prems"(6))
        show "\<forall>i. mid \<le> i \<and> i < length xs \<longrightarrow> f pivot \<le> f (xs ! i)" by (rule upper)
      qed (fact neg nonneg srt)+
      then show ?thesis
        unfolding unfold using neg_order by simp
    next
      case nonneg_order: False
      then have mp: "f (xs ! mid) \<le> f pivot" using nonneg [of pivot "xs ! mid" s] c by simp
      have ml: "mid < length xs" using m "1.prems"(5) by simp
      have lower: "\<forall>i < mid + 1. f (xs ! i) \<le> f pivot"
      proof (intro allI impI)
        fix i assume "i < mid + 1"
        then have "i \<le> mid" by simp
        from mono [OF this ml] mp show "f (xs ! i) \<le> f pivot" by simp
      qed
      have "let l = fst (findInsertionPoint comparefn pivot xs (mid + 1) right s')
            in l \<le> length xs \<and> (\<forall>i < l. f (xs ! i) \<le> f pivot) \<and>
               (\<forall>i. l \<le> i \<and> i < length xs \<longrightarrow> f pivot \<le> f (xs ! i))"
      proof (rule "1.IH"(2) [OF True mid_def c [symmetric] nonneg_order])
        show "mid + 1 \<le> right" using m by simp
        show "right \<le> length xs" by (rule "1.prems"(5))
        show "\<forall>i < mid + 1. f (xs ! i) \<le> f pivot" by (rule lower)
        show "\<forall>i. right \<le> i \<and> i < length xs \<longrightarrow> f pivot \<le> f (xs ! i)"
          by (rule "1.prems"(7))
      qed (fact neg nonneg srt)+
      then show ?thesis
        unfolding unfold using nonneg_order by simp
    qed
  qed
qed

lemma sorted_insert_at:
  assumes "sorted (map f xs)" and "l \<le> length xs"
    and "\<forall>i < l. f (xs ! i) \<le> (f pivot :: nat)"
    and "\<forall>i. l \<le> i \<and> i < length xs \<longrightarrow> f pivot \<le> f (xs ! i)"
  shows "sorted (map f (take l xs @ pivot # drop l xs))"
proof -
  have a: "\<forall>x \<in> set (take l xs). f x \<le> f pivot"
    using assms(2,3) by (auto simp add: in_set_conv_nth)
  have b: "\<forall>y \<in> set (drop l xs). f pivot \<le> f y"
    using assms(2,4) by (auto simp add: in_set_conv_nth)
  have c: "sorted (map f (take l xs))" "sorted (map f (drop l xs))"
    using assms(1) by (simp_all add: sorted_map)
  from a b have "\<forall>x \<in> set (take l xs). \<forall>y \<in> set (drop l xs). f x \<le> f y"
    by (meson order_trans)
  with a b c show ?thesis by (auto simp add: sorted_append)
qed

lemma sorted_binaryInsertionSort:
  assumes neg: "\<And>a b s. fst (comparefn a b s) < 0 \<Longrightarrow> f a \<le> (f b :: nat)"
    and nonneg: "\<And>a b s. \<not> fst (comparefn a b s) < 0 \<Longrightarrow> f b \<le> f a"
  shows "sorted (map f front) \<Longrightarrow>
         sorted (map f (fst (binaryInsertionSort comparefn front rest s)))"
proof (induction rest arbitrary: front s)
  case Nil
  then show ?case by simp
next
  case (Cons pivot rest)
  obtain left s' where p: "findInsertionPoint comparefn pivot front 0 (length front) s = (left, s')"
    by (cases "findInsertionPoint comparefn pivot front 0 (length front) s")
  have "let l = fst (findInsertionPoint comparefn pivot front 0 (length front) s)
        in l \<le> length front \<and> (\<forall>i < l. f (front ! i) \<le> f pivot) \<and>
           (\<forall>i. l \<le> i \<and> i < length front \<longrightarrow> f pivot \<le> f (front ! i))"
    by (rule findInsertionPoint_bounds [OF neg nonneg Cons.prems]) simp_all
  with p have "sorted (map f (take left front @ pivot # drop left front))"
    by (intro sorted_insert_at [OF Cons.prems]) (simp_all add: Let_def)
  then have "sorted (map f (fst (binaryInsertionSort comparefn
      (take left front @ pivot # drop left front) rest s')))"
    by (rule Cons.IH)
  with p show ?case by simp
qed

lemma sorted_arraySort:
  assumes neg: "\<And>a b s. fst (comparefn a b s) < 0 \<Longrightarrow> f a \<le> (f b :: nat)"
    and nonneg: "\<And>a b s. \<not> fst (comparefn a b s) < 0 \<Longrightarrow> f b \<le> f a"
  shows "sorted (map f (fst (arraySort comparefn xs s)))"
proof (cases "length xs < 2")
  case True
  then show ?thesis by (simp add: arraySort_def sorted01)
next
  case False
  obtain ys runLength s' where c: "countAndMakeRun comparefn xs s = ((ys, runLength), s')"
    by (cases "countAndMakeRun comparefn xs s") auto
  have "sorted (map f (take runLength ys))"
    by (rule sorted_countAndMakeRun [OF neg nonneg c])
  then have "sorted (map f (fst (binaryInsertionSort comparefn (take runLength ys)
      (drop runLength ys) s')))"
    using sorted_binaryInsertionSort [of comparefn f "take runLength ys" "drop runLength ys" s']
      neg nonneg by blast
  with False c show ?thesis by (simp add: arraySort_def)
qed

lemma arraySort_short: "length xs < 2 \<Longrightarrow> arraySort comparefn xs s = (xs, s)"
  by (simp add: arraySort_def)

lemma arraySort_pair:
  "arraySort comparefn [a, b] s =
     (if fst (comparefn b a s) < 0 then [b, a] else [a, b], snd (comparefn b a s))"
  by (simp add: arraySort_def countAndMakeRun_def Let_def case_prod_unfold)

lemma compare_sign:
  assumes "\<forall>s. 0 \<le> rnd s \<and> rnd s \<le> 1"
  shows "fst (compareFairness rnd cnts shift a b s) < 0 \<Longrightarrow>
           baseScore cnts shift a \<le> baseScore cnts shift b"
    and "\<not> fst (compareFairness rnd cnts shift a b s) < 0 \<Longrightarrow>
           baseScore cnts shift b \<le> baseScore cnts shift a"
proof -
  have r: "0 \<le> rnd s" "rnd s \<le> 1" "0 \<le> rnd (s + 1)" "rnd (s + 1) \<le> 1"
    using assms by simp_all
  {
    assume "fst (compareFairness rnd cnts shift a b s) < 0"
    then have "real (baseScore cnts shift a) < real (baseScore cnts shift b) + 1"
      using r by (simp add: compareFairness_def seededRandom_def Let_def)
    then have "real (baseScore cnts shift a) < real (baseScore cnts shift b + 1)" by simp
    then show "baseScore cnts shift a \<le> baseScore cnts shift b"
      unfolding of_nat_less_iff by simp
  }
  {
    assume "\<not> fst (compareFairness rnd cnts shift a b s) < 0"
    then have "real (baseScore cnts shift b) < real (baseScore cnts shift a) + 1"
      using r by (simp add: compareFairness_def seededRandom_def Let_def)
    then have "real (baseScore cnts shift b) < real (baseScore cnts shift a + 1)" by simp
    then show "baseScore cnts shift b \<le> baseScore cnts shift a"
      unfolding of_nat_less_iff by simp
  }
qed

lemma sorted_sortedAvailable:
  assumes "\<forall>s. 0 \<le> rnd s \<and> rnd s \<le> 1"
  shows "sorted (map (baseScore (tally r) shift) (sortedAvailable rnd st r shift d))"
  unfolding sortedAvailable_def
  by (rule sorted_arraySort) (simp_all add: compare_sign [OF assms])

lemma seed_processShift:
  "seed (processShift rnd st d weekend r shift) =
   snd (arraySort (compareFairness rnd (tally r) shift) (available st r shift d) (seed r))"
  by (simp add: processShift_fold)

text \<open>
  C4, amended: for every day and working shift the candidates are sorted by the engine
  with a comparison function that, at every comparison of two candidates, computes both
  scores afresh: the score of a candidate is its total, plus twice its night count when
  the shift is N, plus half of one draw of the generator, and each comparison advances
  the seed twice. With draws between 0 and 1 the sorted candidates are a permutation of
  the candidates in ascending order of the total plus the night weight. The draws decide
  among candidates that are equal in it: of two candidates the later one comes first
  exactly when its score, with the first draw, is less than the score of the earlier one
  with the second draw; fewer than two candidates are not compared and draw nothing. The
  shift goes to the first candidates in sorted order until the required count is filled
  or the candidates are exhausted. The roster holds at most 20 employees.
\<close>

theorem C4_fairness_order:
  assumes "\<forall>s. 0 \<le> rnd s \<and> rnd s \<le> 1"
    and "length (allEmployees st) \<le> 20"
    and "d < length dates" and "k < length (workingShifts st)"
  shows "let r = shiftStart rnd st dates d k;
             r' = shiftStart rnd st dates d (Suc k);
             shift = workingShifts st ! k;
             required = requiredCount st (isWeekend (dates ! d)) shift;
             candidates = available st r shift d;
             order = sortedAvailable rnd st r shift d;
             weight = (\<lambda>e. totalAssigned (tally r ! e) +
                          (if code shift = ''N'' then 2 * nightAssigned (tally r ! e) else 0));
             score = (\<lambda>e s. real (weight e) + rnd s * 0.5)
         in (\<forall>a b s. compareFairness rnd (tally r) shift a b s =
               (score a s - score b (s + 1), s + 2)) \<and>
            mset order = mset candidates \<and>
            sorted (map weight order) \<and>
            (length candidates < 2 \<longrightarrow> order = candidates \<and> seed r' = seed r) \<and>
            (\<forall>a b. candidates = [a, b] \<longrightarrow>
               order = (if score b (seed r) < score a (seed r + 1) then [b, a] else [a, b]) \<and>
               seed r' = seed r + 2) \<and>
            (\<forall>e < length (allEmployees st).
               grid r' ! e ! d =
                 (if e \<in> set (take (nat required) order) then Some (code shift)
                  else grid r ! e ! d))"
proof -
  let ?r = "shiftStart rnd st dates d k"
  let ?shift = "workingShifts st ! k"
  let ?we = "isWeekend (dates ! d)"
  let ?weight = "\<lambda>e. totalAssigned (tally ?r ! e) +
                     (if code ?shift = ''N'' then 2 * nightAssigned (tally ?r ! e) else 0)"
  let ?cmp = "compareFairness rnd (tally ?r) ?shift"
  have inv: "reachInv st dates d ?r"
    using assms by (intro reach_states) simp_all
  have w: "?weight = baseScore (tally ?r) ?shift"
    by (intro ext) (simp add: baseScore_def)
  have cmp: "?cmp a b s =
      ((real (?weight a) + rnd s * 0.5) - (real (?weight b) + rnd (s + 1) * 0.5), s + 2)"
    for a b s
    by (simp add: compareFairness_def seededRandom_def Let_def baseScore_def)
  have perm: "mset (sortedAvailable rnd st ?r ?shift d) = mset (available st ?r ?shift d)"
    by (simp add: sortedAvailable_def mset_arraySort)
  have srt: "sorted (map ?weight (sortedAvailable rnd st ?r ?shift d))"
    unfolding w by (rule sorted_sortedAvailable [OF assms(1)])
  have short: "sortedAvailable rnd st ?r ?shift d = available st ?r ?shift d \<and>
      seed (processShift rnd st d ?we ?r ?shift) = seed ?r"
    if "length (available st ?r ?shift d) < 2"
    using that by (simp add: sortedAvailable_def seed_processShift arraySort_short)
  have pair: "sortedAvailable rnd st ?r ?shift d =
        (if real (?weight b) + rnd (seed ?r) * 0.5 < real (?weight a) + rnd (seed ?r + 1) * 0.5
         then [b, a] else [a, b]) \<and>
      seed (processShift rnd st d ?we ?r ?shift) = seed ?r + 2"
    if "available st ?r ?shift d = [a, b]" for a b
    unfolding sortedAvailable_def seed_processShift that arraySort_pair cmp by simp
  have cell: "grid (processShift rnd st d ?we ?r ?shift) ! e ! d =
      (if e \<in> set (take (nat (requiredCount st ?we ?shift)) (sortedAvailable rnd st ?r ?shift d))
       then Some (code ?shift) else grid ?r ! e ! d)"
    if "e < length (allEmployees st)" for e
    using reach_shape [OF inv] that assms(3)
    by (simp add: cell_processShift assignedTo_def)
  show ?thesis
    unfolding Let_def shiftStart_Suc [OF assms(4)]
    using cmp perm srt short pair cell by blast
qed

lemma initial_tie:
  "initialRun tieState examplePeriod =
     \<lparr>grid = [[None, None, None], [None, None, None]],
      tally = [\<lparr>totalAssigned = 0, nightAssigned = 0\<rparr>, \<lparr>totalAssigned = 0, nightAssigned = 0\<rparr>],
      consecutiveDays = [0, 0], seed = 42, warns = []\<rparr>"
  by (simp add: initialRun_def prefill_def prefillRow_def allEmployees_def tieState_def
      twoEmployees_def exampleState_def examplePeriod_def numeral_2_eq_2)

lemma tie_shifts: "workingShifts tieState = [\<lparr>code = ''D'', stype = working, coverage = Some 1\<rparr>]"
  by (simp add: workingShifts_def tieState_def exampleState_def)

lemma tie_start: "shiftStart sineDraws tieState examplePeriod 0 0 = initialRun tieState examplePeriod"
  by (simp add: shiftStart_def dayStart_def)

lemma tie_first_shift:
  "shiftStart sineDraws tieState examplePeriod 0 (Suc 0) =
     \<lparr>grid = [[Some ''D'', None, None], [None, None, None]],
      tally = [\<lparr>totalAssigned = 1, nightAssigned = 0\<rparr>, \<lparr>totalAssigned = 0, nightAssigned = 0\<rparr>],
      consecutiveDays = [0, 0], seed = 44, warns = []\<rparr>"
  unfolding shiftStart_def dayStart_def initial_tie by code_simp

lemma tie_second_day:
  "shiftStart sineDraws tieState examplePeriod (Suc 0) 0 =
     \<lparr>grid = [[Some ''D'', None, None], [None, None, None]],
      tally = [\<lparr>totalAssigned = 1, nightAssigned = 0\<rparr>, \<lparr>totalAssigned = 0, nightAssigned = 0\<rparr>],
      consecutiveDays = [1, 0], seed = 44, warns = []\<rparr>"
  unfolding shiftStart_def dayStart_def initial_tie by code_simp

text \<open>
  C4, as stated, fails: the code gives a candidate no single score. On the first day of the
  example with two employees, seed 42, both candidates have the counters 0. The sort makes
  one comparison, of employee 1 with the draw 0.784521 against employee 0 with the draw
  0.252574, and leaves employee 0 first, who receives the shift. Scored once with two
  successive draws each, employee 0 has 0.518548 and employee 1 has 0.027248: employee 1
  is the lowest-scoring candidate.
\<close>

theorem C4_single_score_counterexample:
  "assignedTo sineDraws tieState (isWeekend (examplePeriod ! 0))
     (shiftStart sineDraws tieState examplePeriod 0 0) (workingShifts tieState ! 0) 0 = [0] \<and>
   grid (shiftStart sineDraws tieState examplePeriod 0 (Suc 0)) =
     [[Some ''D'', None, None], [None, None, None]] \<and>
   claimedAssigned sineDraws tieState (isWeekend (examplePeriod ! 0))
     (shiftStart sineDraws tieState examplePeriod 0 0) (workingShifts tieState ! 0) 0 = [1]"
  unfolding tie_start tie_first_shift initial_tie tie_shifts by code_simp

lemma tie_candidates:
  "available tieState
     \<lparr>grid = [[Some ''D'', None, None], [None, None, None]],
      tally = [\<lparr>totalAssigned = 1, nightAssigned = 0\<rparr>, \<lparr>totalAssigned = 0, nightAssigned = 0\<rparr>],
      consecutiveDays = [1, 0], seed = 44, warns = []\<rparr>
     \<lparr>code = ''D'', stype = working, coverage = Some 1\<rparr> (Suc 0) = [0, 1]"
  by code_simp

theorem C4_fairness_order_witness:
  "sortedAvailable sineDraws tieState (shiftStart sineDraws tieState examplePeriod (Suc 0) 0)
     (workingShifts tieState ! 0) (Suc 0) = [Suc 0, 0] \<and>
   seed (shiftStart sineDraws tieState examplePeriod (Suc 0) (Suc 0)) = 46 \<and>
   grid (shiftStart sineDraws tieState examplePeriod (Suc 0) (Suc 0)) ! Suc 0 ! Suc 0 = Some ''D''"
proof -
  let ?r = "shiftStart sineDraws tieState examplePeriod (Suc 0) 0"
  let ?r' = "shiftStart sineDraws tieState examplePeriod (Suc 0) (Suc 0)"
  let ?order = "sortedAvailable sineDraws tieState ?r (workingShifts tieState ! 0) (Suc 0)"
  have b: "\<forall>s. 0 \<le> sineDraws s \<and> sineDraws s \<le> 1" by (simp add: sineDraws_def)
  have n: "length (allEmployees tieState) \<le> 20"
    by (simp add: allEmployees_def tieState_def twoEmployees_def)
  have d: "Suc 0 < length examplePeriod" by (simp add: examplePeriod_def)
  have k: "0 < length (workingShifts tieState)" by (simp add: tie_shifts)
  have e: "Suc 0 < length (allEmployees tieState)"
    by (simp add: allEmployees_def tieState_def twoEmployees_def)
  have c: "available tieState ?r (workingShifts tieState ! 0) (Suc 0) = [0, Suc 0]"
    unfolding tie_second_day tie_shifts nth_Cons_0 tie_candidates by simp
  have q: "requiredCount tieState (isWeekend (examplePeriod ! Suc 0)) (workingShifts tieState ! 0) = 1"
    unfolding tie_shifts by (simp add: requiredCount_def tieState_def exampleState_def)
  from C4_fairness_order [OF b n d k]
  have two: "?order =
        (if real (totalAssigned (tally ?r ! Suc 0) +
              (if code (workingShifts tieState ! 0) = ''N''
               then 2 * nightAssigned (tally ?r ! Suc 0) else 0)) + sineDraws (seed ?r) * 0.5
            < real (totalAssigned (tally ?r ! 0) +
              (if code (workingShifts tieState ! 0) = ''N''
               then 2 * nightAssigned (tally ?r ! 0) else 0)) + sineDraws (seed ?r + 1) * 0.5
         then [Suc 0, 0] else [0, Suc 0]) \<and>
      seed ?r' = seed ?r + 2"
    and cell: "grid ?r' ! Suc 0 ! Suc 0 =
        (if Suc 0 \<in> set (take (nat (requiredCount tieState (isWeekend (examplePeriod ! Suc 0))
                                      (workingShifts tieState ! 0))) ?order)
         then Some (code (workingShifts tieState ! 0)) else grid ?r ! Suc 0 ! Suc 0)"
    unfolding Let_def using c e by blast+
  from two have o: "?order = [Suc 0, 0]" and s: "seed ?r' = 46"
    unfolding tie_second_day tie_shifts by (simp_all add: sineDraws_def)
  from cell have "grid ?r' ! Suc 0 ! Suc 0 = Some ''D''"
    unfolding o q by (simp add: tie_shifts)
  with o s show ?thesis by simp
qed

end
